theory Spec2Isabelle
  imports Main "HOL-Library.Word" "HOL-Library.AList"
begin

section \<open>The record engine (politeiad/backendv2/tstorebe/tstorebe.go)\<close>

subsection \<open>Data model of package backendv2\<close>

text \<open>
  A Go \<open>[]byte\<close> and a Go \<open>string\<close> are both byte sequences: \<^typ>\<open>string\<close>.
  A \<open>uint32\<close> is a \<^typ>\<open>32 word\<close>, whose addition wraps around as Go's does.
\<close>

type_synonym bytes = string
type_synonym uint32 = "32 word"

record MetadataStream =
  ms_PluginID :: string
  ms_StreamID :: uint32
  ms_Payload :: string

record File =
  f_Name :: string
  f_MIME :: string
  f_Digest :: string
  f_Payload :: string

text \<open>
  Modelled from the spec: the declarations of \<open>backend.StateT\<close> and
  \<open>backend.StatusT\<close> are not part of the sources. The spec (section 3) lists the
  states \<open>{unvetted, vetted}\<close> and the statuses
  \<open>{unreviewed, public, censored, archived}\<close>; the code names them by the constants
  below, which are pairwise distinct because they are the keys of the map literal
  \<open>statusChanges\<close>. Both are integer types in Go, so a caller can hand over a
  status that is none of the four named ones: \<open>StatusOther n\<close> stands for every
  such value.
\<close>

datatype StateT = StateUnvetted | StateVetted

datatype StatusT =
  StatusUnreviewed | StatusPublic | StatusCensored | StatusArchived | StatusOther nat

record RecordMetadata =
  rm_Token :: string
  rm_Version :: uint32
  rm_Iteration :: uint32
  rm_State :: StateT
  rm_Status :: StatusT
  rm_Timestamp :: int
  rm_Merkle :: string

record RecordT =
  r_RecordMetadata :: RecordMetadata
  r_Metadata :: "MetadataStream list"
  r_Files :: "File list"

datatype ContentErrorCodeT =
  ContentErrorMetadataStreamInvalid
| ContentErrorMetadataStreamDuplicate
| ContentErrorFilesEmpty
| ContentErrorFileNameInvalid
| ContentErrorFileNameDuplicate
| ContentErrorFileDigestInvalid
| ContentErrorFilePayloadInvalid
| ContentErrorFileMIMETypeInvalid
| ContentErrorFileMIMETypeUnsupported

text \<open>
  Every error value the record engine returns. \<open>Errorf p e\<close> is
  \<open>fmt.Errorf("p: %v", e)\<close>, \<open>ErrorNew m\<close> an error made from a message alone,
  \<open>ErrUnknownStatus\<close> the error of the default branch of the status switch in
  \<open>RecordSetStatus\<close>, and \<open>HookError\<close> whatever a plugin's pre hook returned
  (a \<open>backend.PluginError\<close> with plugin id, code and context, or any other failure).
\<close>

datatype pluginError = PluginError string uint32 string | PluginFailure string

datatype error =
  ContentError ContentErrorCodeT string
| HookError pluginError
| ErrRecordNotFound
| ErrRecordLocked
| ErrNoRecordChanges
| ErrShutdown
| StatusTransitionError StatusT StatusT
| ErrUnknownStatus StatusT
| Errorf string error
| ErrorNew string

subsection \<open>Formatting helpers of the Go standard library\<close>

definition digitChar :: "nat \<Rightarrow> char" where
  "digitChar d = ''0123456789abcdef'' ! d"

text \<open>\<open>strconv.FormatUint(n, 10)\<close>, also what \<open>%v\<close> prints for an unsigned number.\<close>

fun FormatUint :: "nat \<Rightarrow> string" where
  "FormatUint n =
     (if n < 10 then [digitChar n] else FormatUint (n div 10) @ [digitChar (n mod 10)])"

declare FormatUint.simps [simp del]

text \<open>\<open>hex.EncodeToString\<close>: two lower-case hex digits per byte.\<close>

definition hexEncode :: "bytes \<Rightarrow> string" where
  "hexEncode b =
     concat (map (\<lambda>c. [digitChar (of_char c div 16), digitChar (of_char c mod 16)]) b)"

subsection \<open>The status state machine\<close>

text \<open>
  \<open>statusChanges\<close> is a map of maps whose inner maps are used as sets; the outer map
  is an association list read with \<^const>\<open>map_of\<close>, the inner sets are lists.
\<close>

definition statusChanges :: "(StatusT \<times> StatusT list) list" where
  "statusChanges =
     [(StatusUnreviewed, [StatusPublic, StatusCensored]),
      (StatusPublic, [StatusCensored, StatusArchived]),
      (StatusCensored, []),
      (StatusArchived, [])]"

definition statusChangeIsAllowed :: "StatusT \<Rightarrow> StatusT \<Rightarrow> bool" where
  "statusChangeIsAllowed from_s to_s =
     (case map_of statusChanges from_s of
        None \<Rightarrow> False
      | Some allowed \<Rightarrow> to_s \<in> set allowed)"

subsection \<open>Content validation\<close>

text \<open>
  The library functions the validation calls are not part of the repository:
  \<open>gozaru.Sanitize\<close>, \<open>util.ConvertDigest\<close> (hex to 32 bytes, \<open>None\<close> when
  the text is not a digest), \<open>base64.StdEncoding.DecodeString\<close>, \<open>util.Digest\<close>
  (SHA256), \<open>mime.DetectMimeType\<close>, \<open>mime.MimeValid\<close>, and \<open>util.MerkleRoot\<close>
  followed by \<open>hex.EncodeToString\<close> (\<open>None\<close> when it returns an error). They are
  parameters of the model, gathered in one record, together with what the registered
  plugins answer to a pre hook.
\<close>

datatype HookT =
  HookTypeNewRecordPre | HookTypeNewRecordPost
| HookTypeEditRecordPre | HookTypeEditRecordPost
| HookTypeEditMetadataPre | HookTypeEditMetadataPost
| HookTypeSetRecordStatusPre | HookTypeSetRecordStatusPost

text \<open>
  The hook payloads of package plugins. The code sends them as JSON; the model keeps the
  structure that is marshalled (\<open>json.Marshal\<close> does not fail on these structs).
\<close>

datatype hookPayload =
  HookNewRecordPre "MetadataStream list" "File list"
| HookNewRecordPost "MetadataStream list" "File list" RecordMetadata
| HookEditRecord RecordT RecordMetadata "MetadataStream list" "File list"
| HookEditMetadata RecordT "MetadataStream list"
| HookSetRecordStatus RecordT RecordMetadata "MetadataStream list"

record externals =
  Sanitize :: "string \<Rightarrow> string"
  ConvertDigest :: "string \<Rightarrow> bytes option"
  DecodeString :: "string \<Rightarrow> bytes option"
  Digest :: "bytes \<Rightarrow> bytes"
  DetectMimeType :: "bytes \<Rightarrow> string"
  MimeValid :: "string \<Rightarrow> bool"
  MerkleRoot :: "string list \<Rightarrow> string option"
  pluginHookPre :: "HookT \<Rightarrow> hookPayload \<Rightarrow> pluginError option"

text \<open>
  The loop of \<open>metadataStreamsVerify\<close>: \<open>i\<close> is the index, \<open>md\<close> the
  \<open>(PluginID, StreamID)\<close> pairs seen so far (the nested map of the source, used as a
  set).
\<close>

fun metadataStreamsVerify_loop ::
  "nat \<Rightarrow> (string \<times> uint32) list \<Rightarrow> MetadataStream list \<Rightarrow> error option" where
  "metadataStreamsVerify_loop i md [] = None"
| "metadataStreamsVerify_loop i md (v # vs) =
     (if ms_PluginID v = [] then
        Some (ContentError ContentErrorMetadataStreamInvalid
                (''plugin id missing at index '' @ FormatUint i))
      else if ms_StreamID v = 0 then
        Some (ContentError ContentErrorMetadataStreamInvalid
                (''stream id missing at index '' @ FormatUint i))
      else if ms_Payload v = [] then
        Some (ContentError ContentErrorMetadataStreamInvalid
                (''payload missing on '' @ ms_PluginID v @ '' ''
                   @ FormatUint (unat (ms_StreamID v))))
      else if (ms_PluginID v, ms_StreamID v) \<in> set md then
        Some (ContentError ContentErrorMetadataStreamDuplicate
                (ms_PluginID v @ '' '' @ FormatUint (unat (ms_StreamID v))))
      else metadataStreamsVerify_loop (i + 1) ((ms_PluginID v, ms_StreamID v) # md) vs)"

definition metadataStreamsVerify :: "MetadataStream list \<Rightarrow> error option" where
  "metadataStreamsVerify metadata = metadataStreamsVerify_loop 0 [] metadata"

text \<open>
  \<open>metadataStreamsUpdate\<close> keys a Go map by the string
  \<open>PluginID + strconv.FormatUint(StreamID, 10)\<close>. The map is an association list:
  \<^const>\<open>AList.update\<close> overwrites the entry of a key that is present and adds the
  entry otherwise. Go iterates over a map in no fixed order, so only the set of the
  returned slice is meaningful; the model returns the entries in insertion order.
\<close>

definition streamKey :: "MetadataStream \<Rightarrow> string" where
  "streamKey v = ms_PluginID v @ FormatUint (unat (ms_StreamID v))"

definition applyOverwrite ::
  "MetadataStream \<Rightarrow> (string \<times> MetadataStream) list \<Rightarrow> (string \<times> MetadataStream) list" where
  "applyOverwrite v md = AList.update (streamKey v) v md"

definition applyAppend ::
  "MetadataStream \<Rightarrow> (string \<times> MetadataStream) list \<Rightarrow> (string \<times> MetadataStream) list" where
  "applyAppend v md =
     (case map_of md (streamKey v) of
        None \<Rightarrow> AList.update (streamKey v) v md
      | Some m \<Rightarrow> AList.update (streamKey v) (m\<lparr>ms_Payload := ms_Payload m @ ms_Payload v\<rparr>) md)"

definition metadataStreamsUpdate ::
  "MetadataStream list \<Rightarrow> MetadataStream list \<Rightarrow> MetadataStream list \<Rightarrow> MetadataStream list" where
  "metadataStreamsUpdate current mdAppend mdOverwrite =
     map snd (fold applyAppend mdAppend
               (fold applyOverwrite mdOverwrite
                 (fold applyOverwrite current [])))"

text \<open>
  \<open>filepath.Base\<close> on a system whose path separator is \<open>/\<close>: the empty path is
  \<open>.\<close>, trailing separators are dropped, the last element is returned, and a path
  of separators only is \<open>/\<close>.
\<close>

definition stripTrailingSlashes :: "string \<Rightarrow> string" where
  "stripTrailingSlashes p = rev (dropWhile (\<lambda>c. c = CHR ''/'') (rev p))"

definition filepath_Base :: "string \<Rightarrow> string" where
  "filepath_Base p =
     (if p = [] then ''.''
      else let q = rev (takeWhile (\<lambda>c. c \<noteq> CHR ''/'') (rev (stripTrailingSlashes p)))
           in if q = [] then ''/'' else q)"

text \<open>The loops of \<open>filesVerify\<close>, each returning at the first error it finds.\<close>

fun filesVerify_paths :: "string list \<Rightarrow> error option" where
  "filesVerify_paths [] = None"
| "filesVerify_paths (n # ns) =
     (if filepath_Base n \<noteq> n then
        Some (ContentError ContentErrorFileNameInvalid (n @ '' contains a file path''))
      else filesVerify_paths ns)"

fun filesVerify_dups :: "string list \<Rightarrow> string list \<Rightarrow> error option" where
  "filesVerify_dups fn [] = None"
| "filesVerify_dups fn (n # ns) =
     (if n \<in> set fn then Some (ContentError ContentErrorFileNameDuplicate n)
      else filesVerify_dups (n # fn) ns)"

definition filesVerify_file :: "externals \<Rightarrow> File \<Rightarrow> error option" where
  "filesVerify_file ext f =
     (if Sanitize ext (f_Name f) \<noteq> f_Name f then
        Some (ContentError ContentErrorFileNameInvalid (f_Name f @ '' is not sanitized''))
      else case ConvertDigest ext (f_Digest f) of
        None \<Rightarrow> Some (ContentError ContentErrorFileDigestInvalid (f_Name f))
      | Some d \<Rightarrow>
          if f_Payload f = [] then
            Some (ContentError ContentErrorFilePayloadInvalid (f_Name f @ '' payload empty''))
          else case DecodeString ext (f_Payload f) of
            None \<Rightarrow>
              Some (ContentError ContentErrorFilePayloadInvalid (f_Name f @ '' invalid base64''))
          | Some payload \<Rightarrow>
              if d \<noteq> Digest ext payload then
                Some (ContentError ContentErrorFileDigestInvalid
                        (f_Name f @ '' digest got '' @ hexEncode d @ '', want ''
                           @ hexEncode (Digest ext payload)))
              else if DetectMimeType ext payload \<noteq> f_MIME f then
                Some (ContentError ContentErrorFileMIMETypeInvalid
                        (f_Name f @ '' mime got '' @ f_MIME f @ '', want ''
                           @ DetectMimeType ext payload))
              else if \<not> MimeValid ext (f_MIME f) then
                Some (ContentError ContentErrorFileMIMETypeUnsupported (f_Name f))
              else None)"

fun filesVerify_files :: "externals \<Rightarrow> File list \<Rightarrow> error option" where
  "filesVerify_files ext [] = None"
| "filesVerify_files ext (f # fs) =
     (case filesVerify_file ext f of
        Some e \<Rightarrow> Some e
      | None \<Rightarrow> filesVerify_files ext fs)"

definition filesVerify :: "externals \<Rightarrow> File list \<Rightarrow> string list \<Rightarrow> error option" where
  "filesVerify ext files filesDel =
     (if length files = 0 \<and> length filesDel = 0 then
        Some (ContentError ContentErrorFilesEmpty [])
      else case filesVerify_paths (map f_Name files) of
        Some e \<Rightarrow> Some e
      | None \<Rightarrow>
     (case filesVerify_paths filesDel of
        Some e \<Rightarrow> Some e
      | None \<Rightarrow>
     (case filesVerify_dups [] (map f_Name files @ filesDel) of
        Some e \<Rightarrow> Some e
      | None \<Rightarrow> filesVerify_files ext files)))"

text \<open>
  \<open>filesUpdate\<close>: the current files in a map by name, the deletes applied, then the
  adds. As for the metadata streams, the order of the returned slice is not fixed in Go.
\<close>

definition filesUpdate :: "File list \<Rightarrow> File list \<Rightarrow> string list \<Rightarrow> File list" where
  "filesUpdate filesCurr filesAdd filesDel =
     map snd (fold (\<lambda>v m. AList.update (f_Name v) v m) filesAdd
               (fold (\<lambda>fn m. AList.delete fn m) filesDel
                 (fold (\<lambda>v m. AList.update (f_Name v) v m) filesCurr [])))"

subsection \<open>The tstore behind the backend\<close>

text \<open>
  Modelled from the spec: the methods of \<open>tstore.Tstore\<close> that the record engine
  calls (\<open>RecordNew\<close>, \<open>RecordExists\<close>, \<open>RecordLatest\<close>, \<open>RecordSave\<close>,
  \<open>RecordFreeze\<close>, \<open>RecordDel\<close>, \<open>PluginHookPre\<close>, \<open>PluginHookPost\<close>) and the
  inventory methods of the backend (\<open>inventoryAdd\<close>, \<open>inventoryUpdate\<close>,
  \<open>inventoryMoveToVetted\<close>) are not part of the sources. Following sections 4.1, 4.4,
  6.4 and 7 of the spec: a record has one log (tree), a save appends a new iteration to it,
  the latest iteration is the record that is read back, a frozen log refuses writes with
  \<open>ErrRecordLocked\<close>, deleting erases the files of the record, and the inventory is a
  sequence of entries with the most recent first. The hooks that were called are kept in
  a log, so that a theorem can say that a hook did not fire.
\<close>

record tree =
  tr_records :: "RecordT list"
  tr_frozen :: bool
  tr_deleted :: bool

record tstoreBackend =
  shutdown :: bool
  trees :: "(bytes \<times> tree) list"
  tokenSupply :: "bytes list"
  hookCalls :: "(HookT \<times> hookPayload) list"
  inventory :: "(StateT \<times> StatusT \<times> bytes \<times> int) list"
  clock :: int

definition isShutdown :: "tstoreBackend \<Rightarrow> bool" where
  "isShutdown t = shutdown t"

definition tstore_RecordExists :: "tstoreBackend \<Rightarrow> bytes \<Rightarrow> bool" where
  "tstore_RecordExists t token = (map_of (trees t) token \<noteq> None)"

definition tstore_RecordLatest :: "tstoreBackend \<Rightarrow> bytes \<Rightarrow> error + RecordT" where
  "tstore_RecordLatest t token =
     (case map_of (trees t) token of
        None \<Rightarrow> Inl ErrRecordNotFound
      | Some tr \<Rightarrow>
          (case tr_records tr of
             [] \<Rightarrow> Inl ErrRecordNotFound
           | r # _ \<Rightarrow> Inr (if tr_deleted tr then r\<lparr>r_Files := []\<rparr> else r)))"

definition tstore_RecordNew :: "tstoreBackend \<Rightarrow> (error + bytes) \<times> tstoreBackend" where
  "tstore_RecordNew t =
     (case tokenSupply t of
        [] \<Rightarrow> (Inl (ErrorNew ''tree new''), t)
      | token # rest \<Rightarrow>
          (Inr token,
           t\<lparr>tokenSupply := rest,
             trees := AList.update token
                        \<lparr>tr_records = [], tr_frozen = False, tr_deleted = False\<rparr> (trees t)\<rparr>))"

definition tstore_RecordSave ::
  "bytes \<Rightarrow> RecordMetadata \<Rightarrow> MetadataStream list \<Rightarrow> File list \<Rightarrow> tstoreBackend
     \<Rightarrow> error option \<times> tstoreBackend" where
  "tstore_RecordSave token rm metadata files t =
     (case map_of (trees t) token of
        None \<Rightarrow> (Some ErrRecordNotFound, t)
      | Some tr \<Rightarrow>
          if tr_frozen tr then (Some ErrRecordLocked, t)
          else (None,
                t\<lparr>trees := AList.update token
                    (tr\<lparr>tr_records :=
                          \<lparr>r_RecordMetadata = rm, r_Metadata = metadata, r_Files = files\<rparr>
                            # tr_records tr\<rparr>) (trees t)\<rparr>))"

definition tstore_RecordFreeze ::
  "bytes \<Rightarrow> RecordMetadata \<Rightarrow> MetadataStream list \<Rightarrow> File list \<Rightarrow> tstoreBackend
     \<Rightarrow> error option \<times> tstoreBackend" where
  "tstore_RecordFreeze token rm metadata files t =
     (case map_of (trees t) token of
        None \<Rightarrow> (Some ErrRecordNotFound, t)
      | Some tr \<Rightarrow>
          if tr_frozen tr then (Some ErrRecordLocked, t)
          else (None,
                t\<lparr>trees := AList.update token
                    (tr\<lparr>tr_records :=
                          \<lparr>r_RecordMetadata = rm, r_Metadata = metadata, r_Files = files\<rparr>
                            # tr_records tr,
                        tr_frozen := True\<rparr>) (trees t)\<rparr>))"

definition tstore_RecordDel :: "bytes \<Rightarrow> tstoreBackend \<Rightarrow> error option \<times> tstoreBackend" where
  "tstore_RecordDel token t =
     (case map_of (trees t) token of
        None \<Rightarrow> (Some ErrRecordNotFound, t)
      | Some tr \<Rightarrow>
          (None, t\<lparr>trees := AList.update token (tr\<lparr>tr_deleted := True\<rparr>) (trees t)\<rparr>))"

definition PluginHookPre ::
  "externals \<Rightarrow> HookT \<Rightarrow> hookPayload \<Rightarrow> tstoreBackend \<Rightarrow> error option \<times> tstoreBackend" where
  "PluginHookPre ext h payload t =
     (map_option HookError (pluginHookPre ext h payload),
      t\<lparr>hookCalls := hookCalls t @ [(h, payload)]\<rparr>)"

definition PluginHookPost :: "HookT \<Rightarrow> hookPayload \<Rightarrow> tstoreBackend \<Rightarrow> tstoreBackend" where
  "PluginHookPost h payload t = t\<lparr>hookCalls := hookCalls t @ [(h, payload)]\<rparr>"

definition inventoryAdd :: "StateT \<Rightarrow> bytes \<Rightarrow> StatusT \<Rightarrow> tstoreBackend \<Rightarrow> tstoreBackend" where
  "inventoryAdd state token status t =
     t\<lparr>inventory := (state, status, token, clock t) # inventory t\<rparr>"

definition inventoryUpdate :: "StateT \<Rightarrow> bytes \<Rightarrow> StatusT \<Rightarrow> tstoreBackend \<Rightarrow> tstoreBackend" where
  "inventoryUpdate state token status t =
     t\<lparr>inventory := (state, status, token, clock t)
          # filter (\<lambda>(st, _, tok, _). \<not> (st = state \<and> tok = token)) (inventory t)\<rparr>"

definition inventoryMoveToVetted :: "bytes \<Rightarrow> StatusT \<Rightarrow> tstoreBackend \<Rightarrow> tstoreBackend" where
  "inventoryMoveToVetted token status t =
     t\<lparr>inventory := (StateVetted, status, token, clock t)
          # filter (\<lambda>(st, _, tok, _). \<not> (st = StateUnvetted \<and> tok = token)) (inventory t)\<rparr>"

subsection \<open>Record operations\<close>

text \<open>
  The operations take the backend and return the new one beside their result. The
  per-record mutex is not modelled: one operation runs at a time. \<open>time.Now().Unix()\<close>
  is the field \<^const>\<open>clock\<close> of the backend.
\<close>

definition recordMetadataNew ::
  "externals \<Rightarrow> int \<Rightarrow> bytes \<Rightarrow> File list \<Rightarrow> StateT \<Rightarrow> StatusT \<Rightarrow> uint32 \<Rightarrow> uint32
     \<Rightarrow> error + RecordMetadata" where
  "recordMetadataNew ext tnow token files state status version iteration =
     (case MerkleRoot ext (map f_Digest files) of
        None \<Rightarrow> Inl (ErrorNew ''merkle root'')
      | Some m \<Rightarrow>
          Inr \<lparr>rm_Token = hexEncode token, rm_Version = version, rm_Iteration = iteration,
               rm_State = state, rm_Status = status, rm_Timestamp = tnow, rm_Merkle = m\<rparr>)"

definition RecordNew ::
  "externals \<Rightarrow> MetadataStream list \<Rightarrow> File list \<Rightarrow> tstoreBackend
     \<Rightarrow> (error + RecordT) \<times> tstoreBackend" where
  "RecordNew ext metadata files t =
     (case metadataStreamsVerify metadata of
        Some e \<Rightarrow> (Inl e, t)
      | None \<Rightarrow>
     (case filesVerify ext files [] of
        Some e \<Rightarrow> (Inl e, t)
      | None \<Rightarrow>
     (case PluginHookPre ext HookTypeNewRecordPre (HookNewRecordPre metadata files) t of
        (Some e, t1) \<Rightarrow> (Inl e, t1)
      | (None, t1) \<Rightarrow>
     (case tstore_RecordNew t1 of
        (Inl e, t2) \<Rightarrow> (Inl e, t2)
      | (Inr token, t2) \<Rightarrow>
     (case recordMetadataNew ext (clock t2) token files StateUnvetted StatusUnreviewed 1 1 of
        Inl e \<Rightarrow> (Inl e, t2)
      | Inr rm \<Rightarrow>
     (case tstore_RecordSave token rm metadata files t2 of
        (Some e, t3) \<Rightarrow> (Inl (Errorf ''RecordSave'' e), t3)
      | (None, t3) \<Rightarrow>
          let t4 = PluginHookPost HookTypeNewRecordPost (HookNewRecordPost metadata files rm) t3;
              t5 = inventoryAdd StateUnvetted token StatusUnreviewed t4
          in (case tstore_RecordLatest t5 token of
                Inl e \<Rightarrow> (Inl (Errorf ''RecordLatest'' e), t5)
              | Inr r \<Rightarrow> (Inr r, t5))))))))"

definition RecordEdit ::
  "externals \<Rightarrow> bytes \<Rightarrow> MetadataStream list \<Rightarrow> MetadataStream list \<Rightarrow> File list
     \<Rightarrow> string list \<Rightarrow> tstoreBackend \<Rightarrow> (error + RecordT) \<times> tstoreBackend" where
  "RecordEdit ext token mdAppend mdOverwrite filesAdd filesDel t =
     (case metadataStreamsVerify (mdAppend @ mdOverwrite) of
        Some e \<Rightarrow> (Inl e, t)
      | None \<Rightarrow>
     (case filesVerify ext filesAdd filesDel of
        Some e \<Rightarrow> (Inl e, t)
      | None \<Rightarrow>
     if \<not> tstore_RecordExists t token then (Inl ErrRecordNotFound, t)
     else if isShutdown t then (Inl ErrShutdown, t)
     else
     (case tstore_RecordLatest t token of
        Inl e \<Rightarrow> (Inl (Errorf ''RecordLatest'' e), t)
      | Inr r \<Rightarrow>
     (let rm = r_RecordMetadata r;
          metadata = metadataStreamsUpdate (r_Metadata r) mdAppend mdOverwrite;
          files = filesUpdate (r_Files r) filesAdd filesDel
      in
     (case recordMetadataNew ext (clock t) token files (rm_State rm) (rm_Status rm)
             (rm_Version rm + 1) (rm_Iteration rm + 1) of
        Inl e \<Rightarrow> (Inl e, t)
      | Inr recordMD \<Rightarrow>
     if rm_Merkle (r_RecordMetadata r) = rm_Merkle recordMD then (Inl ErrNoRecordChanges, t)
     else
     (case PluginHookPre ext HookTypeEditRecordPre (HookEditRecord r recordMD metadata files) t of
        (Some e, t1) \<Rightarrow> (Inl e, t1)
      | (None, t1) \<Rightarrow>
     (case tstore_RecordSave token recordMD metadata files t1 of
        (Some e, t2) \<Rightarrow>
          (if e = ErrRecordLocked then (Inl e, t2) else (Inl (Errorf ''RecordSave'' e), t2))
      | (None, t2) \<Rightarrow>
          let t3 = PluginHookPost HookTypeEditRecordPost
                     (HookEditRecord r recordMD metadata files) t2
          in (case tstore_RecordLatest t3 token of
                Inl e \<Rightarrow> (Inl (Errorf ''RecordLatest'' e), t3)
              | Inr r' \<Rightarrow> (Inr r', t3)))))))))"

definition RecordEditMetadata ::
  "externals \<Rightarrow> bytes \<Rightarrow> MetadataStream list \<Rightarrow> MetadataStream list \<Rightarrow> tstoreBackend
     \<Rightarrow> (error + RecordT) \<times> tstoreBackend" where
  "RecordEditMetadata ext token mdAppend mdOverwrite t =
     (case metadataStreamsVerify (mdAppend @ mdOverwrite) of
        Some e \<Rightarrow> (Inl e, t)
      | None \<Rightarrow>
     if length mdAppend = 0 \<and> length mdOverwrite = 0 then (Inl ErrNoRecordChanges, t)
     else if \<not> tstore_RecordExists t token then (Inl ErrRecordNotFound, t)
     else if isShutdown t then (Inl ErrShutdown, t)
     else
     (case tstore_RecordLatest t token of
        Inl e \<Rightarrow> (Inl (Errorf ''RecordLatest'' e), t)
      | Inr r \<Rightarrow>
     (let rm = r_RecordMetadata r;
          metadata = metadataStreamsUpdate (r_Metadata r) mdAppend mdOverwrite
      in
     (case recordMetadataNew ext (clock t) token (r_Files r) (rm_State rm) (rm_Status rm)
             (rm_Version rm) (rm_Iteration rm + 1) of
        Inl e \<Rightarrow> (Inl e, t)
      | Inr recordMD \<Rightarrow>
     (case PluginHookPre ext HookTypeEditMetadataPre (HookEditMetadata r metadata) t of
        (Some e, t1) \<Rightarrow> (Inl e, t1)
      | (None, t1) \<Rightarrow>
     (case tstore_RecordSave token recordMD metadata (r_Files r) t1 of
        (Some e, t2) \<Rightarrow>
          (if e = ErrRecordLocked \<or> e = ErrNoRecordChanges then (Inl e, t2)
           else (Inl (Errorf ''RecordSave'' e), t2))
      | (None, t2) \<Rightarrow>
          let t3 = PluginHookPost HookTypeEditMetadataPost (HookEditMetadata r metadata) t2
          in (case tstore_RecordLatest t3 token of
                Inl e \<Rightarrow> (Inl (Errorf ''RecordLatest'' e), t3)
              | Inr r' \<Rightarrow> (Inr r', t3))))))))"

definition setStatusPublic ::
  "bytes \<Rightarrow> RecordMetadata \<Rightarrow> MetadataStream list \<Rightarrow> File list \<Rightarrow> tstoreBackend
     \<Rightarrow> error option \<times> tstoreBackend" where
  "setStatusPublic token rm metadata files t = tstore_RecordSave token rm metadata files t"

definition setStatusArchived ::
  "bytes \<Rightarrow> RecordMetadata \<Rightarrow> MetadataStream list \<Rightarrow> File list \<Rightarrow> tstoreBackend
     \<Rightarrow> error option \<times> tstoreBackend" where
  "setStatusArchived token rm metadata files t =
     (case tstore_RecordFreeze token rm metadata files t of
        (Some e, t1) \<Rightarrow> (Some (Errorf ''RecordFreeze'' e), t1)
      | (None, t1) \<Rightarrow> (None, t1))"

definition setStatusCensored ::
  "bytes \<Rightarrow> RecordMetadata \<Rightarrow> MetadataStream list \<Rightarrow> File list \<Rightarrow> tstoreBackend
     \<Rightarrow> error option \<times> tstoreBackend" where
  "setStatusCensored token rm metadata files t =
     (case tstore_RecordFreeze token rm metadata files t of
        (Some e, t1) \<Rightarrow> (Some (Errorf ''RecordFreeze'' e), t1)
      | (None, t1) \<Rightarrow>
          (case tstore_RecordDel token t1 of
             (Some e, t2) \<Rightarrow> (Some (Errorf ''RecordDel'' e), t2)
           | (None, t2) \<Rightarrow> (None, t2)))"

text \<open>
  The first \<open>switch status\<close> of \<open>RecordSetStatus\<close> ("Update record status"), with its
  default branch.
\<close>

definition updateRecordStatus ::
  "bytes \<Rightarrow> StatusT \<Rightarrow> RecordMetadata \<Rightarrow> MetadataStream list \<Rightarrow> File list \<Rightarrow> tstoreBackend
     \<Rightarrow> error option \<times> tstoreBackend" where
  "updateRecordStatus token status rm metadata files t =
     (case status of
        StatusPublic \<Rightarrow> setStatusPublic token rm metadata files t
      | StatusArchived \<Rightarrow> setStatusArchived token rm metadata files t
      | StatusCensored \<Rightarrow> setStatusCensored token rm metadata files t
      | _ \<Rightarrow> (Some (ErrUnknownStatus status), t))"

definition RecordSetStatus ::
  "externals \<Rightarrow> bytes \<Rightarrow> StatusT \<Rightarrow> MetadataStream list \<Rightarrow> MetadataStream list
     \<Rightarrow> tstoreBackend \<Rightarrow> (error + RecordT) \<times> tstoreBackend" where
  "RecordSetStatus ext token status mdAppend mdOverwrite t =
     (if \<not> tstore_RecordExists t token then (Inl ErrRecordNotFound, t)
      else if isShutdown t then (Inl ErrShutdown, t)
      else
     (case tstore_RecordLatest t token of
        Inl e \<Rightarrow> (Inl (Errorf ''RecordLatest'' e), t)
      | Inr r \<Rightarrow>
     (let currStatus = rm_Status (r_RecordMetadata r) in
      if \<not> statusChangeIsAllowed currStatus status then
        (Inl (StatusTransitionError currStatus status), t)
      else
     (let state = (if status = StatusPublic then StateVetted
                   else rm_State (r_RecordMetadata r));
          version = (if status = StatusPublic then 1 else rm_Version (r_RecordMetadata r));
          iter = (if status = StatusPublic then 1 else rm_Iteration (r_RecordMetadata r) + 1)
      in
     (case recordMetadataNew ext (clock t) token (r_Files r) state status version iter of
        Inl e \<Rightarrow> (Inl e, t)
      | Inr recordMD \<Rightarrow>
     (let metadata = metadataStreamsUpdate (r_Metadata r) mdAppend mdOverwrite in
     (case PluginHookPre ext HookTypeSetRecordStatusPre
             (HookSetRecordStatus r recordMD metadata) t of
        (Some e, t1) \<Rightarrow> (Inl e, t1)
      | (None, t1) \<Rightarrow>
     (case updateRecordStatus token status recordMD metadata (r_Files r) t1 of
        (Some e, t2) \<Rightarrow> (Inl e, t2)
      | (None, t2) \<Rightarrow>
          let t3 = PluginHookPost HookTypeSetRecordStatusPost
                     (HookSetRecordStatus r recordMD metadata) t2;
              t4 = (if status = StatusPublic then inventoryMoveToVetted token status t3
                    else inventoryUpdate (rm_State (r_RecordMetadata r)) token status t3)
          in (case tstore_RecordLatest t4 token of
                Inl e \<Rightarrow> (Inl (Errorf ''RecordLatest'' e), t4)
              | Inr r' \<Rightarrow> (Inr r', t4))))))))))"

subsection \<open>An instance of the parameters, for running the operations\<close>

text \<open>
  The example parameters stand in for the libraries: the sanitizer drops the characters
  \<open>?<>:*|\<close> (which \<open>gozaru.Sanitize\<close> drops as well), a digest is any non-empty
  text, payloads decode to themselves, the one valid MIME type is \<open>text/plain\<close>, the
  merkle root of a list of digests is their concatenation, and no plugin vetoes.
\<close>

definition exampleExternals :: externals where
  "exampleExternals =
     \<lparr>Sanitize = filter (\<lambda>c. c \<notin> set ''?<>:*|''),
      ConvertDigest = (\<lambda>d. if d = [] then None else Some d),
      DecodeString = Some,
      Digest = (\<lambda>b. b),
      DetectMimeType = (\<lambda>_. ''text/plain''),
      MimeValid = (\<lambda>m. m = ''text/plain''),
      MerkleRoot = (\<lambda>ds. Some (concat ds)),
      pluginHookPre = (\<lambda>_ _. None)\<rparr>"

definition emptyBackend :: tstoreBackend where
  "emptyBackend =
     \<lparr>shutdown = False, trees = [], tokenSupply = [''T1'', ''T2''], hookCalls = [],
      inventory = [], clock = 1000\<rparr>"

definition fileA :: File where
  "fileA = \<lparr>f_Name = ''a.txt'', f_MIME = ''text/plain'', f_Digest = ''aa'', f_Payload = ''aa''\<rparr>"

definition fileB :: File where
  "fileB = \<lparr>f_Name = ''b.txt'', f_MIME = ''text/plain'', f_Digest = ''bb'', f_Payload = ''bb''\<rparr>"

definition streamA :: MetadataStream where
  "streamA = \<lparr>ms_PluginID = ''usermd'', ms_StreamID = 2, ms_Payload = ''x''\<rparr>"

text \<open>
  The backend after \<open>RecordNew\<close> of one record with the file \<open>a.txt\<close>, and the
  record it then holds under the token \<open>T1\<close> (hex \<open>5431\<close>).
\<close>

definition record1 :: RecordT where
  "record1 =
     \<lparr>r_RecordMetadata =
        \<lparr>rm_Token = ''5431'', rm_Version = 1, rm_Iteration = 1,
         rm_State = StateUnvetted, rm_Status = StatusUnreviewed,
         rm_Timestamp = 1000, rm_Merkle = ''aa''\<rparr>,
      r_Metadata = [], r_Files = [fileA]\<rparr>"

definition backend1 :: tstoreBackend where
  "backend1 = snd (RecordNew exampleExternals [] [fileA] emptyBackend)"

subsection \<open>Sequences of operations on one record\<close>

text \<open>
  The mutating operations on an existing record, as values, so that a theorem can speak
  of any sequence of them. \<open>runOps\<close> applies them in order to the record of one token;
  an operation that fails leaves the backend as that operation left it, and the next one
  runs. \<open>savedIterations\<close> lists the iteration of every record metadata saved to the
  log of a token, oldest first.
\<close>

datatype recordOp =
  OpRecordEdit "MetadataStream list" "MetadataStream list" "File list" "string list"
| OpRecordEditMetadata "MetadataStream list" "MetadataStream list"
| OpRecordSetStatus StatusT "MetadataStream list" "MetadataStream list"

fun applyOp :: "externals \<Rightarrow> bytes \<Rightarrow> recordOp \<Rightarrow> tstoreBackend \<Rightarrow> tstoreBackend" where
  "applyOp ext token (OpRecordEdit mdAppend mdOverwrite filesAdd filesDel) t =
     snd (RecordEdit ext token mdAppend mdOverwrite filesAdd filesDel t)"
| "applyOp ext token (OpRecordEditMetadata mdAppend mdOverwrite) t =
     snd (RecordEditMetadata ext token mdAppend mdOverwrite t)"
| "applyOp ext token (OpRecordSetStatus status mdAppend mdOverwrite) t =
     snd (RecordSetStatus ext token status mdAppend mdOverwrite t)"

fun runOps :: "externals \<Rightarrow> bytes \<Rightarrow> recordOp list \<Rightarrow> tstoreBackend \<Rightarrow> tstoreBackend" where
  "runOps ext token [] t = t"
| "runOps ext token (op # ops) t = runOps ext token ops (applyOp ext token op t)"

fun isPublish :: "recordOp \<Rightarrow> bool" where
  "isPublish (OpRecordSetStatus status _ _) = (status = StatusPublic)"
| "isPublish _ = False"

definition savedIterations :: "tstoreBackend \<Rightarrow> bytes \<Rightarrow> uint32 list" where
  "savedIterations t token =
     (case map_of (trees t) token of
        None \<Rightarrow> []
      | Some tr \<Rightarrow> rev (map (\<lambda>r. rm_Iteration (r_RecordMetadata r)) (tr_records tr)))"

definition strictlyIncreasing :: "uint32 list \<Rightarrow> bool" where
  "strictlyIncreasing xs = sorted_wrt (\<lambda>a b. a < b) xs"

text \<open>
  \<open>stepsByOne xs ys\<close>: the list \<open>ys\<close> is \<open>xs\<close>, or \<open>xs\<close> followed by its last
  element plus one.
\<close>

definition stepsByOne :: "uint32 list \<Rightarrow> uint32 list \<Rightarrow> bool" where
  "stepsByOne xs ys \<longleftrightarrow> ys = xs \<or> (xs \<noteq> [] \<and> ys = xs @ [last xs + 1])"

text \<open>
  \<open>savedSince t t' token\<close>: the iteration the record of \<open>token\<close> had in the backend
  \<open>t\<close> (the last one saved there), followed by the iterations saved between \<open>t\<close> and
  \<open>t'\<close>. \<open>consecutive xs\<close>: every element of \<open>xs\<close> is its predecessor plus
  one, in \<open>uint32\<close> arithmetic.
\<close>

definition savedSince :: "tstoreBackend \<Rightarrow> tstoreBackend \<Rightarrow> bytes \<Rightarrow> uint32 list" where
  "savedSince t t' token =
     drop (length (savedIterations t token) - 1) (savedIterations t' token)"

fun consecutive :: "uint32 list \<Rightarrow> bool" where
  "consecutive (a # b # xs) = (b = a + 1 \<and> consecutive (b # xs))"
| "consecutive _ = True"

text \<open>The example record after it was made public: its log holds the iterations 1, 1.\<close>

definition publicBackend :: tstoreBackend where
  "publicBackend = snd (RecordSetStatus exampleExternals ''T1'' StatusPublic [] [] backend1)"

subsection \<open>What the validation of files is claimed to check\<close>

text \<open>
  The conditions of the spec, as predicates on a file, next to the code of
  \<open>filesVerify\<close> above: the declared digest is the SHA256 of the decoded payload (a
  digest that is no digest, or a payload that is no base64, matches nothing), and the
  MIME type detected from the decoded payload is the declared one.
  \<open>isContentError\<close> says that a validation returned a \<open>ContentError\<close>.
\<close>

definition digestMatches :: "externals \<Rightarrow> File \<Rightarrow> bool" where
  "digestMatches ext f =
     (case ConvertDigest ext (f_Digest f) of
        None \<Rightarrow> False
      | Some d \<Rightarrow>
          (case DecodeString ext (f_Payload f) of
             None \<Rightarrow> False
           | Some payload \<Rightarrow> d = Digest ext payload))"

definition mimeMatches :: "externals \<Rightarrow> File \<Rightarrow> bool" where
  "mimeMatches ext f =
     (case DecodeString ext (f_Payload f) of
        None \<Rightarrow> False
      | Some payload \<Rightarrow> DetectMimeType ext payload = f_MIME f)"

fun isContentError :: "error option \<Rightarrow> bool" where
  "isContentError (Some (ContentError _ _)) = True"
| "isContentError _ = False"

section \<open>The anchor engine (politeiad/backendv2/tstorebe/tstore/anchor.go)\<close>

subsection \<open>Data model\<close>

text \<open>
  The types of the libraries the anchor engine uses (trillian's \<open>LogRootV1\<close>, dcrtime's
  \<open>VerifyDigest\<close>, \<open>ChainInformation\<close> and result codes, the merkle branch of
  dcrtime) with the fields the code reads. A pointer field that may be \<open>nil\<close> is an
  option. Of the result codes only \<open>ResultOK\<close> and \<open>ResultExistsError\<close> are named by
  the code; \<open>ResultOther n\<close> is any other code.
\<close>

type_synonym uint64 = "64 word"

record LogRootV1 =
  lr_TreeSize :: uint64
  lr_RootHash :: bytes

datatype ResultT = ResultOK | ResultExistsError | ResultOther nat

record MerkleBranch =
  mb_NumLeaves :: uint32
  mb_Hashes :: "bytes list"
  mb_Flags :: bytes

record ChainInformation =
  ci_Transaction :: string
  ci_MerkleRoot :: string
  ci_MerklePath :: MerkleBranch
  ci_ChainTimestamp :: int

record VerifyDigest =
  vd_Digest :: string
  vd_Result :: ResultT
  vd_ChainInformation :: ChainInformation

record anchor =
  a_TreeID :: int
  a_LogRoot :: "LogRootV1 option"
  a_VerifyDigest :: "VerifyDigest option"

record TimestampBatchReply =
  tbr_Results :: "ResultT list"
  tbr_Digests :: "string list"

text \<open>
  The errors of the anchor engine: \<open>errAnchorNotFound\<close>, \<open>TstoreErrorf p e\<close> for
  \<open>fmt.Errorf("p: %v", e)\<close>, \<open>TstoreError m\<close> for an error made of a message, and
  \<open>TstorePanic\<close> where Go panics (an index out of range, a nil pointer).
\<close>

datatype tstoreError =
  errAnchorNotFound
| TstoreErrorf string tstoreError
| TstoreError string
| TstorePanic

text \<open>
  What the anchor engine does to the world, in the order it does it: it sets the
  dropping flag, submits a batch to dcrtime, starts the goroutine \<open>anchorWait\<close>, waits
  for a tick of its ticker (with the period in minutes), polls dcrtime, writes an anchor
  blob to the store and appends an anchor leaf to a log.
\<close>

datatype anchorEvent =
  EvDroppingAnchorSet bool
| EvTimestampBatch string "string list"
| EvGoAnchorWait "anchor list" "string list"
| EvTick nat
| EvVerifyBatch string "string list"
| EvStorePut anchor
| EvLeavesAppend int

record Tstore =
  droppingAnchor :: bool
  events :: "anchorEvent list"

text \<open>
  The services behind the anchor engine are parameters: the trillian log
  (\<open>TreesAll\<close> as the list of tree ids, \<open>LeavesAll\<close> as the number of leaves of a tree,
  \<open>SignedLogRoot\<close>, \<open>LeavesAppend\<close> as the status codes of the queued leaves, with
  \<open>0\<close> for \<open>codes.OK\<close>), the blob store (\<open>storePut\<close>), dcrtime (\<open>timestampBatch\<close>,
  and \<open>verifyBatch\<close>, whose answer depends on the number of the poll) and
  \<open>merkle.VerifyAuthPath\<close>. \<open>anchorLatest\<close>, which reads the most recent anchor of a
  tree from the log and the store, is a parameter as well: what it returns for each tree
  is all that \<open>anchorTrees\<close> uses of it.
\<close>

record anchorExternals =
  TreesAll :: "tstoreError + int list"
  anchorLatest :: "int \<Rightarrow> tstoreError + anchor"
  LeavesAll :: "int \<Rightarrow> tstoreError + nat"
  SignedLogRoot :: "int \<Rightarrow> tstoreError + LogRootV1"
  timestampBatch :: "string \<Rightarrow> string list \<Rightarrow> tstoreError + TimestampBatchReply"
  verifyBatch :: "nat \<Rightarrow> string \<Rightarrow> string list \<Rightarrow> tstoreError + VerifyDigest list"
  VerifyAuthPath :: "MerkleBranch \<Rightarrow> bytes option"
  storePut :: "anchor \<Rightarrow> tstoreError option"
  LeavesAppend :: "int \<Rightarrow> anchor \<Rightarrow> tstoreError + nat list"

definition anchorID :: string where
  "anchorID = ''tstorebe''"

definition droppingAnchorGet :: "Tstore \<Rightarrow> bool" where
  "droppingAnchorGet t = droppingAnchor t"

definition droppingAnchorSet :: "bool \<Rightarrow> Tstore \<Rightarrow> Tstore" where
  "droppingAnchorSet b t =
     t\<lparr>droppingAnchor := b, events := events t @ [EvDroppingAnchorSet b]\<rparr>"

definition logEvent :: "anchorEvent \<Rightarrow> Tstore \<Rightarrow> Tstore" where
  "logEvent e t = t\<lparr>events := events t @ [e]\<rparr>"

subsection \<open>anchorSave\<close>

definition anchorSave :: "anchorExternals \<Rightarrow> anchor \<Rightarrow> Tstore \<Rightarrow> tstoreError option \<times> Tstore" where
  "anchorSave ext a t =
     (if a_TreeID a = 0 then (Some (TstoreError ''invalid tree id of 0''), t)
      else if a_LogRoot a = None then (Some (TstoreError ''log root not found''), t)
      else if a_VerifyDigest a = None then (Some (TstoreError ''verify digest not found''), t)
      else
        let t1 = logEvent (EvStorePut a) t in
        (case storePut ext a of
           Some e \<Rightarrow> (Some (TstoreErrorf ''store Put'' e), t1)
         | None \<Rightarrow>
             let t2 = logEvent (EvLeavesAppend (a_TreeID a)) t1 in
             (case LeavesAppend ext (a_TreeID a) a of
                Inl e \<Rightarrow> (Some (TstoreErrorf ''LeavesAppend'' e), t2)
              | Inr queued \<Rightarrow>
                  if length queued \<noteq> 1 then
                    (Some (TstoreError ''wrong number of queud leaves''), t2)
                  else if length (filter (\<lambda>c. c \<noteq> 0) queued) > 0 then
                    (Some (TstoreError ''append leaves failed''), t2)
                  else (None, t2))))"

subsection \<open>anchorWait\<close>

text \<open>
  The period of the ticker in minutes, and the number of retries, computed as the code
  computes it.
\<close>

definition period :: nat where
  "period = 5"

definition retries :: nat where
  "retries = 180 div period"

text \<open>
  The transaction of a digest whose anchor transaction has not been sent: the hex
  encoding of \<open>sha256.Size = 32\<close> zero bytes.
\<close>

definition zeroTransaction :: string where
  "zeroTransaction = hexEncode (replicate 32 (CHR 0x00))"

text \<open>
  The loop over \<open>vbr.Digests\<close> that fills the map \<open>anchored\<close> (a set of digests, kept
  as a list without repetition) and breaks at the first reply that is not anchored.
\<close>

fun anchoredDigests :: "string list \<Rightarrow> VerifyDigest list \<Rightarrow> string list" where
  "anchoredDigests anchored [] = anchored"
| "anchoredDigests anchored (v # vs) =
     (if vd_Result v \<noteq> ResultOK then anchored
      else if ci_Transaction (vd_ChainInformation v) = zeroTransaction then anchored
      else if ci_ChainTimestamp (vd_ChainInformation v) = 0 then anchored
      else anchoredDigests (List.insert (vd_Digest v) anchored) vs)"

text \<open>
  The loop over \<open>anchors\<close> that saves the anchor records; \<open>k\<close> is the index. A failed
  check or a failed save is logged and the loop continues; \<open>vbr.Digests[k]\<close> with
  \<open>k\<close> out of range, or an anchor without log root, panics.
\<close>

fun saveAnchors ::
  "anchorExternals \<Rightarrow> VerifyDigest list \<Rightarrow> nat \<Rightarrow> anchor list \<Rightarrow> Tstore \<Rightarrow> bool \<times> Tstore" where
  "saveAnchors ext vds k [] t = (True, t)"
| "saveAnchors ext vds k (v # vs) t =
     (if k \<ge> length vds then (False, t)
      else
        let verifyDigest = vds ! k;
            digest = vd_Digest verifyDigest;
            merkleRoot = ci_MerkleRoot (vd_ChainInformation verifyDigest);
            merklePath = ci_MerklePath (vd_ChainInformation verifyDigest)
        in (case a_LogRoot v of
              None \<Rightarrow> (False, t)
            | Some lr \<Rightarrow>
                if digest \<noteq> hexEncode (lr_RootHash lr) then saveAnchors ext vds (k + 1) vs t
                else (case VerifyAuthPath ext merklePath of
                        None \<Rightarrow> saveAnchors ext vds (k + 1) vs t
                      | Some mk \<Rightarrow>
                          if hexEncode mk \<noteq> merkleRoot then saveAnchors ext vds (k + 1) vs t
                          else if \<not> (\<exists>h \<in> set (mb_Hashes merklePath). hexEncode h = digest)
                          then saveAnchors ext vds (k + 1) vs t
                          else saveAnchors ext vds (k + 1) vs
                                 (snd (anchorSave ext (v\<lparr>a_VerifyDigest := Some verifyDigest\<rparr>) t)))))"

text \<open>
  How \<open>anchorWait\<close> ended: it was called reentrantly, it went on to save the anchors
  at the attempt with the given number (counted from 0) and the saving loop ran to its
  end or panicked, \<open>verifyBatch\<close> failed, or the retries ran out.
\<close>

datatype waitResult =
  WaitReentrant
| WaitDropped nat
| WaitVerifyBatchError tstoreError
| WaitTimeout
| WaitPanic nat

function anchorWait_loop ::
  "anchorExternals \<Rightarrow> anchor list \<Rightarrow> string list \<Rightarrow> nat \<Rightarrow> Tstore \<Rightarrow> waitResult \<times> Tstore" where
  "anchorWait_loop ext anchors digests try t =
     (if try < retries then
        let t1 = logEvent (EvTick period) t;
            t2 = logEvent (EvVerifyBatch anchorID digests) t1
        in (case verifyBatch ext try anchorID digests of
              Inl err \<Rightarrow> (WaitVerifyBatchError (TstoreErrorf ''verifyBatch'' err), t2)
            | Inr vbr \<Rightarrow>
                if length (anchoredDigests [] vbr) \<noteq> length digests then
                  anchorWait_loop ext anchors digests (try + 1) t2
                else (case saveAnchors ext vbr 0 anchors t2 of
                        (True, t3) \<Rightarrow> (WaitDropped try, t3)
                      | (False, t3) \<Rightarrow> (WaitPanic try, t3)))
      else (WaitTimeout, t))"
  by pat_completeness auto
termination
  by (relation "measure (\<lambda>(ext, anchors, digests, try, t). retries - try)") auto

declare anchorWait_loop.simps [simp del]

definition anchorWait ::
  "anchorExternals \<Rightarrow> anchor list \<Rightarrow> string list \<Rightarrow> Tstore \<Rightarrow> waitResult \<times> Tstore" where
  "anchorWait ext anchors digests t =
     (if droppingAnchorGet t then (WaitReentrant, t)
      else
        let t1 = droppingAnchorSet True t in
        (case anchorWait_loop ext anchors digests 0 t1 of
           (res, t2) \<Rightarrow> (res, droppingAnchorSet False t2)))"

subsection \<open>anchorTrees\<close>

text \<open>
  The loop of \<open>anchorTrees\<close> over the trees, collecting the anchors and digests of the
  trees that have leaves not yet anchored.
\<close>

definition anchorTrees_add ::
  "anchorExternals \<Rightarrow> int \<Rightarrow> anchor list \<Rightarrow> string list
     \<Rightarrow> tstoreError + (anchor list \<times> string list)" where
  "anchorTrees_add ext v anchors digests =
     (case SignedLogRoot ext v of
        Inl e \<Rightarrow> Inl (TstoreErrorf ''SignedLogRoot'' e)
      | Inr lr \<Rightarrow>
          Inr (anchors @ [\<lparr>a_TreeID = v, a_LogRoot = Some lr, a_VerifyDigest = None\<rparr>],
               digests @ [hexEncode (lr_RootHash lr)]))"

fun anchorTrees_loop ::
  "anchorExternals \<Rightarrow> int list \<Rightarrow> anchor list \<Rightarrow> string list
     \<Rightarrow> tstoreError + (anchor list \<times> string list)" where
  "anchorTrees_loop ext [] anchors digests = Inr (anchors, digests)"
| "anchorTrees_loop ext (v # vs) anchors digests =
     (case anchorLatest ext v of
        Inl err \<Rightarrow>
          if err = errAnchorNotFound then
            (case LeavesAll ext v of
               Inl e \<Rightarrow> Inl (TstoreErrorf ''LeavesAll'' e)
             | Inr n \<Rightarrow>
                 if n = 0 then anchorTrees_loop ext vs anchors digests
                 else (case anchorTrees_add ext v anchors digests of
                         Inl e \<Rightarrow> Inl e
                       | Inr (anchors', digests') \<Rightarrow> anchorTrees_loop ext vs anchors' digests'))
          else Inl (TstoreErrorf ''anchorLatest'' err)
      | Inr a \<Rightarrow>
          (case SignedLogRoot ext v of
             Inl e \<Rightarrow> Inl (TstoreErrorf ''SignedLogRoot'' e)
           | Inr lr \<Rightarrow>
               (case a_LogRoot a of
                  None \<Rightarrow> Inl TstorePanic
                | Some alr \<Rightarrow>
                    if lr_TreeSize alr = lr_TreeSize lr - 1 then
                      anchorTrees_loop ext vs anchors digests
                    else (case anchorTrees_add ext v anchors digests of
                            Inl e \<Rightarrow> Inl e
                          | Inr (anchors', digests') \<Rightarrow>
                              anchorTrees_loop ext vs anchors' digests'))))"

text \<open>
  The loop over \<open>tbr.Results\<close>: \<open>Some failed\<close> when it ends, \<open>None\<close> when the log
  message reads \<open>tbr.Digests[i]\<close> out of range.
\<close>

fun timestampResults :: "string list \<Rightarrow> nat \<Rightarrow> bool \<Rightarrow> ResultT list \<Rightarrow> bool option" where
  "timestampResults ds i failed [] = Some failed"
| "timestampResults ds i failed (v # vs) =
     (case v of
        ResultOK \<Rightarrow> timestampResults ds (i + 1) failed vs
      | ResultExistsError \<Rightarrow>
          if i < length ds then timestampResults ds (i + 1) failed vs else None
      | ResultOther _ \<Rightarrow>
          if i < length ds then timestampResults ds (i + 1) True vs else None)"

text \<open>
  \<open>anchorTrees\<close> returns its error, the arguments of the goroutine \<open>anchorWait\<close> it
  started (if it started one), and the new state.
\<close>

definition anchorTrees ::
  "anchorExternals \<Rightarrow> Tstore
     \<Rightarrow> tstoreError option \<times> (anchor list \<times> string list) option \<times> Tstore" where
  "anchorTrees ext t =
     (if droppingAnchorGet t then (None, None, t)
      else (case TreesAll ext of
        Inl e \<Rightarrow> (Some (TstoreErrorf ''TreesAll'' e), None, t)
      | Inr treeIds \<Rightarrow>
     (case anchorTrees_loop ext treeIds [] [] of
        Inl e \<Rightarrow> (Some e, None, t)
      | Inr (anchors, digests) \<Rightarrow>
          if length anchors = 0 then (None, None, t)
          else
            let t1 = logEvent (EvTimestampBatch anchorID digests) t in
            (case timestampBatch ext anchorID digests of
               Inl e \<Rightarrow> (Some (TstoreErrorf ''timestampBatch'' e), None, t1)
             | Inr tbr \<Rightarrow>
                 (case timestampResults (tbr_Digests tbr) 0 False (tbr_Results tbr) of
                    None \<Rightarrow> (Some TstorePanic, None, t1)
                  | Some failed \<Rightarrow>
                      if failed then
                        (Some (TstoreError ''dcrtime failed to timestamp digests''), None, t1)
                      else (None, Some (anchors, digests),
                            logEvent (EvGoAnchorWait anchors digests) t1))))))"

subsection \<open>Reading the log of events\<close>

text \<open>
  The polls of dcrtime, the writes of anchor records, the changes of the dropping flag
  and the minutes spent waiting for the ticker, counted in a log of events; and the
  condition of the spec for a reply of \<open>verifyBatch\<close> to count as anchored.
\<close>

fun isPoll :: "anchorEvent \<Rightarrow> bool" where
  "isPoll (EvVerifyBatch _ _) = True"
| "isPoll _ = False"

fun isSave :: "anchorEvent \<Rightarrow> bool" where
  "isSave (EvStorePut _) = True"
| "isSave (EvLeavesAppend _) = True"
| "isSave _ = False"

fun isGuardSet :: "anchorEvent \<Rightarrow> bool" where
  "isGuardSet (EvDroppingAnchorSet _) = True"
| "isGuardSet _ = False"

fun isSubmit :: "anchorEvent \<Rightarrow> bool" where
  "isSubmit (EvTimestampBatch _ _) = True"
| "isSubmit _ = False"

fun tickMinutes :: "anchorEvent \<Rightarrow> nat" where
  "tickMinutes (EvTick m) = m"
| "tickMinutes _ = 0"

definition pollCount :: "anchorEvent list \<Rightarrow> nat" where
  "pollCount evs = length (filter isPoll evs)"

definition saveCount :: "anchorEvent list \<Rightarrow> nat" where
  "saveCount evs = length (filter isSave evs)"

definition minutesWaited :: "anchorEvent list \<Rightarrow> nat" where
  "minutesWaited evs = sum_list (map tickMinutes evs)"

definition digestIsAnchored :: "VerifyDigest \<Rightarrow> bool" where
  "digestIsAnchored v \<longleftrightarrow>
     vd_Result v = ResultOK \<and>
     ci_Transaction (vd_ChainInformation v) \<noteq> zeroTransaction \<and>
     ci_ChainTimestamp (vd_ChainInformation v) \<noteq> 0"

text \<open>
  \<open>pollPair\<close> is what one attempt of \<open>anchorWait\<close> adds to the log before it looks
  at the reply; \<open>goodAttempt ext digests k\<close> says that at attempt \<open>k\<close> the reply of
  dcrtime made the map \<open>anchored\<close> as large as the batch.
\<close>

definition pollPair :: "string list \<Rightarrow> anchorEvent list" where
  "pollPair digests = [EvTick period, EvVerifyBatch anchorID digests]"

definition goodAttempt :: "anchorExternals \<Rightarrow> string list \<Rightarrow> nat \<Rightarrow> bool" where
  "goodAttempt ext digests k \<longleftrightarrow>
     k < retries \<and>
     (\<exists>vbr. verifyBatch ext k anchorID digests = Inr vbr \<and>
            length (anchoredDigests [] vbr) = length digests)"

subsection \<open>An instance of the services, for running the anchor engine\<close>

text \<open>
  One tree, with id 1, three leaves, the root hash \<open>R\<close> (hex \<open>52\<close>) and no anchor
  yet. dcrtime accepts the batch; at the first poll the transaction has not been sent,
  at every later poll the digest is anchored, with a merkle path that holds the digest
  and resolves to the merkle root \<open>M\<close> (hex \<open>4d\<close>). In \<open>failingServices\<close> every
  poll of dcrtime fails instead.
\<close>

definition pendingReply :: VerifyDigest where
  "pendingReply =
     \<lparr>vd_Digest = ''52'', vd_Result = ResultOK,
      vd_ChainInformation =
        \<lparr>ci_Transaction = zeroTransaction, ci_MerkleRoot = [],
         ci_MerklePath = \<lparr>mb_NumLeaves = 0, mb_Hashes = [], mb_Flags = []\<rparr>,
         ci_ChainTimestamp = 0\<rparr>\<rparr>"

definition anchoredReply :: VerifyDigest where
  "anchoredReply =
     \<lparr>vd_Digest = ''52'', vd_Result = ResultOK,
      vd_ChainInformation =
        \<lparr>ci_Transaction = ''ab'', ci_MerkleRoot = ''4d'',
         ci_MerklePath = \<lparr>mb_NumLeaves = 1, mb_Hashes = [''R''], mb_Flags = []\<rparr>,
         ci_ChainTimestamp = 1700000000\<rparr>\<rparr>"

definition exampleServices :: anchorExternals where
  "exampleServices =
     \<lparr>TreesAll = Inr [1],
      anchorLatest = (\<lambda>_. Inl errAnchorNotFound),
      LeavesAll = (\<lambda>_. Inr 3),
      SignedLogRoot = (\<lambda>_. Inr \<lparr>lr_TreeSize = 3, lr_RootHash = ''R''\<rparr>),
      timestampBatch = (\<lambda>_ ds. Inr \<lparr>tbr_Results = [ResultOK], tbr_Digests = ds\<rparr>),
      verifyBatch = (\<lambda>k _ _. if k = 0 then Inr [pendingReply] else Inr [anchoredReply]),
      VerifyAuthPath = (\<lambda>_. Some ''M''),
      storePut = (\<lambda>_. None),
      LeavesAppend = (\<lambda>_ _. Inr [0])\<rparr>"

definition failingServices :: anchorExternals where
  "failingServices = exampleServices\<lparr>verifyBatch := (\<lambda>_ _ _. Inl (TstoreError ''unreachable''))\<rparr>"

definition idleTstore :: Tstore where
  "idleTstore = \<lparr>droppingAnchor = False, events = []\<rparr>"

definition anchor1 :: anchor where
  "anchor1 =
     \<lparr>a_TreeID = 1, a_LogRoot = Some \<lparr>lr_TreeSize = 3, lr_RootHash = ''R''\<rparr>,
      a_VerifyDigest = None\<rparr>"

text \<open>The state after \<open>anchorTrees\<close> has submitted the batch and started the goroutine.\<close>

definition submittedTstore :: Tstore where
  "submittedTstore =
     \<lparr>droppingAnchor = False,
      events = [EvTimestampBatch ''tstorebe'' [''52''], EvGoAnchorWait [anchor1] [''52'']]\<rparr>"

text \<open>
  The state in which the goroutine of the example ends when the anchor drops at the
  second poll, and the one in which it ends when the first poll fails.
\<close>

definition droppedTstore :: Tstore where
  "droppedTstore =
     \<lparr>droppingAnchor = False,
      events =
        [EvTimestampBatch ''tstorebe'' [''52''], EvGoAnchorWait [anchor1] [''52''],
         EvDroppingAnchorSet True,
         EvTick 5, EvVerifyBatch ''tstorebe'' [''52''],
         EvTick 5, EvVerifyBatch ''tstorebe'' [''52''],
         EvStorePut (anchor1\<lparr>a_VerifyDigest := Some anchoredReply\<rparr>), EvLeavesAppend 1,
         EvDroppingAnchorSet False]\<rparr>"

definition failedTstore :: Tstore where
  "failedTstore =
     \<lparr>droppingAnchor = False,
      events =
        [EvTimestampBatch ''tstorebe'' [''52''], EvGoAnchorWait [anchor1] [''52''],
         EvDroppingAnchorSet True,
         EvTick 5, EvVerifyBatch ''tstorebe'' [''52''],
         EvDroppingAnchorSet False]\<rparr>"

section \<open>The billing status commands of the pi plugin (src/unnamed/part_004)\<close>

subsection \<open>Data model\<close>

text \<open>
  Modelled from the spec: the declarations of \<open>pi.BillingStatusT\<close>, of the error codes
  of the pi plugin and of \<open>ticketvote.VoteStatusT\<close> are not part of the sources. The
  spec (section 4.6) gives the billing statuses \<open>{active, closed, completed}\<close>; the
  code names them, and the invalid status, by the constants below (the three valid ones
  are distinct, being the keys of the map literal \<open>billingStatusChanges\<close>). The types
  are integer types in Go: \<open>BillingStatusOther n\<close> and \<open>VoteStatusOther n\<close> stand
  for the values the code does not name. \<open>ErrorCodeInvalid\<close> is the zero value of the
  error code.
\<close>

datatype BillingStatusT =
  BillingStatusInvalid | BillingStatusActive | BillingStatusClosed | BillingStatusCompleted
| BillingStatusOther nat

datatype VoteStatusT = VoteStatusApproved | VoteStatusOther nat









subsection \<open>The commands\<close>










subsection \<open>An instance of the parameters of the plugin\<close>




subsection \<open>Identity of a metadata stream\<close>

text \<open>
  A metadata stream is identified by its plugin id and stream id (spec, section 3). A
  list of streams is free of key collisions when two of its streams that get the same
  key in the map of \<open>metadataStreamsUpdate\<close> have the same identity. The two streams
  \<open>("a", 12)\<close> and \<open>("a1", 2)\<close> collide.
\<close>

definition streamId :: "MetadataStream \<Rightarrow> string \<times> uint32" where
  "streamId v = (ms_PluginID v, ms_StreamID v)"

definition collisionFree :: "MetadataStream list \<Rightarrow> bool" where
  "collisionFree vs \<longleftrightarrow>
     (\<forall>u \<in> set vs. \<forall>v \<in> set vs. streamKey u = streamKey v \<longrightarrow> streamId u = streamId v)"

text \<open>
  \<open>wellKeyed\<close>: every entry of the map of \<open>metadataStreamsUpdate\<close> sits under its
  own key, and no key occurs twice.
\<close>

definition wellKeyed :: "(string \<times> MetadataStream) list \<Rightarrow> bool" where
  "wellKeyed md \<longleftrightarrow> distinct (map fst md) \<and> (\<forall>(k, x) \<in> set md. k = streamKey x)"

definition streamA12 :: MetadataStream where
  "streamA12 = \<lparr>ms_PluginID = ''a'', ms_StreamID = 12, ms_Payload = ''x''\<rparr>"

definition streamA1_2 :: MetadataStream where
  "streamA1_2 = \<lparr>ms_PluginID = ''a1'', ms_StreamID = 2, ms_Payload = ''y''\<rparr>"

section \<open>Verified properties\<close>

subsection \<open>Facts about the tstore and the status machine\<close>

lemma statusChangeIsAllowed_iff:
  "statusChangeIsAllowed from_s to_s \<longleftrightarrow>
     (from_s, to_s) \<in> {(StatusUnreviewed, StatusPublic), (StatusUnreviewed, StatusCensored),
                       (StatusPublic, StatusCensored), (StatusPublic, StatusArchived)}"
  by (cases from_s; cases to_s) (simp_all add: statusChangeIsAllowed_def statusChanges_def)

lemma map_of_update_same: "map_of (AList.update k v al) k = Some v"
  by (simp add: update_conv')

lemma RecordLatest_PluginHookPost [simp]:
  "tstore_RecordLatest (PluginHookPost h p t) token = tstore_RecordLatest t token"
  by (simp add: tstore_RecordLatest_def PluginHookPost_def)

lemma RecordLatest_inventoryUpdate [simp]:
  "tstore_RecordLatest (inventoryUpdate st token' status t) token = tstore_RecordLatest t token"
  by (simp add: tstore_RecordLatest_def inventoryUpdate_def)

lemma RecordLatest_inventoryMoveToVetted [simp]:
  "tstore_RecordLatest (inventoryMoveToVetted token' status t) token = tstore_RecordLatest t token"
  by (simp add: tstore_RecordLatest_def inventoryMoveToVetted_def)

lemma RecordLatest_inventoryAdd [simp]:
  "tstore_RecordLatest (inventoryAdd st token' status t) token = tstore_RecordLatest t token"
  by (simp add: tstore_RecordLatest_def inventoryAdd_def)

lemma RecordSave_latest:
  assumes "tstore_RecordSave token rm md files t = (None, t')"
  shows "\<exists>r. tstore_RecordLatest t' token = Inr r \<and> r_RecordMetadata r = rm"
  using assms
  by (auto simp: tstore_RecordSave_def tstore_RecordLatest_def map_of_update_same
      split: option.splits if_splits)

lemma RecordFreeze_latest:
  assumes "tstore_RecordFreeze token rm md files t = (None, t')"
  shows "\<exists>r. tstore_RecordLatest t' token = Inr r \<and> r_RecordMetadata r = rm"
  using assms
  by (auto simp: tstore_RecordFreeze_def tstore_RecordLatest_def map_of_update_same
      split: option.splits if_splits)

lemma RecordDel_latest:
  assumes "tstore_RecordDel token t = (None, t')"
    and "tstore_RecordLatest t token = Inr r"
  shows "\<exists>r'. tstore_RecordLatest t' token = Inr r' \<and> r_RecordMetadata r' = r_RecordMetadata r"
  using assms
  by (auto simp: tstore_RecordDel_def tstore_RecordLatest_def map_of_update_same
      split: option.splits if_splits list.splits)

lemma updateRecordStatus_latest:
  assumes "updateRecordStatus token status rm md files t = (None, t')"
  shows "status \<in> {StatusPublic, StatusCensored, StatusArchived} \<and>
         (\<exists>r. tstore_RecordLatest t' token = Inr r \<and> r_RecordMetadata r = rm)"
proof (cases status)
  case StatusPublic
  with assms show ?thesis
    by (auto simp: updateRecordStatus_def setStatusPublic_def dest: RecordSave_latest)
next
  case StatusArchived
  with assms show ?thesis
    by (auto simp: updateRecordStatus_def setStatusArchived_def dest: RecordFreeze_latest
        split: prod.splits option.splits)
next
  case StatusCensored
  with assms show ?thesis
    by (auto simp: updateRecordStatus_def setStatusCensored_def
        dest!: RecordFreeze_latest dest: RecordDel_latest
        split: prod.splits option.splits)
qed (use assms in \<open>simp_all add: updateRecordStatus_def\<close>)

lemma recordMetadataNew_fields:
  "recordMetadataNew ext n token files state status v i = Inr rm \<Longrightarrow>
   rm_State rm = state \<and> rm_Status rm = status \<and> rm_Version rm = v \<and> rm_Iteration rm = i
   \<and> rm_Token rm = hexEncode token \<and> rm_Timestamp rm = n
   \<and> MerkleRoot ext (map f_Digest files) = Some (rm_Merkle rm)"
  by (auto simp: recordMetadataNew_def split: option.splits)

lemma updateRecordStatus_unknownD:
  "updateRecordStatus token status rm md files t = (Some (ErrUnknownStatus st), t') \<Longrightarrow>
   status \<notin> {StatusPublic, StatusCensored, StatusArchived}"
  by (auto simp: updateRecordStatus_def setStatusPublic_def setStatusArchived_def
      setStatusCensored_def tstore_RecordSave_def tstore_RecordFreeze_def tstore_RecordDel_def
      split: option.splits prod.splits if_splits)

lemma updateRecordStatus_no_transition_error:
  "updateRecordStatus token status rm md files t \<noteq> (Some (StatusTransitionError a b), t')"
  by (cases status)
     (auto simp: updateRecordStatus_def setStatusPublic_def setStatusArchived_def
      setStatusCensored_def tstore_RecordSave_def tstore_RecordFreeze_def tstore_RecordDel_def
      split: option.splits prod.splits if_splits)

lemma updateRecordStatus_succeeds:
  assumes "map_of (trees t) token = Some tr" and "\<not> tr_frozen tr"
    and "status \<in> {StatusPublic, StatusCensored, StatusArchived}"
  shows "\<exists>t'. updateRecordStatus token status rm md files t = (None, t')"
  using assms
  by (auto simp: updateRecordStatus_def setStatusPublic_def setStatusArchived_def
      setStatusCensored_def tstore_RecordSave_def tstore_RecordFreeze_def tstore_RecordDel_def
      map_of_update_same)

lemma PluginHookPre_not_unknown:
  "PluginHookPre ext h p t \<noteq> (Some (ErrUnknownStatus st), t')"
  by (auto simp: PluginHookPre_def)

lemma recordMetadataNew_not_unknown:
  "recordMetadataNew ext n token files state status v i \<noteq> Inl (ErrUnknownStatus st)"
  by (auto simp: recordMetadataNew_def split: option.splits)

subsection \<open>The example backend, evaluated\<close>

lemmas run_defs =
  RecordSetStatus_def RecordEdit_def RecordEditMetadata_def
  tstore_RecordExists_def isShutdown_def tstore_RecordLatest_def statusChangeIsAllowed_def
  statusChanges_def recordMetadataNew_def exampleExternals_def metadataStreamsUpdate_def
  PluginHookPre_def PluginHookPost_def updateRecordStatus_def setStatusPublic_def
  setStatusArchived_def setStatusCensored_def tstore_RecordSave_def tstore_RecordFreeze_def
  tstore_RecordDel_def inventoryMoveToVetted_def inventoryUpdate_def hexEncode_def
  digitChar_def Let_def

lemma backend1_eq:
  "backend1 =
     \<lparr>shutdown = False,
      trees = [(''T1'',
        \<lparr>tr_records =
           [\<lparr>r_RecordMetadata =
               \<lparr>rm_Token = ''5431'', rm_Version = 1, rm_Iteration = 1,
                rm_State = StateUnvetted, rm_Status = StatusUnreviewed,
                rm_Timestamp = 1000, rm_Merkle = ''aa''\<rparr>,
             r_Metadata = [], r_Files = [fileA]\<rparr>],
         tr_frozen = False, tr_deleted = False\<rparr>)],
      tokenSupply = [''T2''],
      hookCalls = [(HookTypeNewRecordPre, HookNewRecordPre [] [fileA]),
                   (HookTypeNewRecordPost, HookNewRecordPost [] [fileA]
                      \<lparr>rm_Token = ''5431'', rm_Version = 1, rm_Iteration = 1,
                       rm_State = StateUnvetted, rm_Status = StatusUnreviewed,
                       rm_Timestamp = 1000, rm_Merkle = ''aa''\<rparr>)],
      inventory = [(StateUnvetted, StatusUnreviewed, ''T1'', 1000)],
      clock = 1000\<rparr>"
  by (simp add: backend1_def RecordNew_def exampleExternals_def emptyBackend_def fileA_def
      metadataStreamsVerify_def filesVerify_def filesVerify_file_def filepath_Base_def
      stripTrailingSlashes_def PluginHookPre_def tstore_RecordNew_def recordMetadataNew_def
      tstore_RecordSave_def PluginHookPost_def inventoryAdd_def tstore_RecordLatest_def
      hexEncode_def digitChar_def)

lemma backend1_latest: "tstore_RecordLatest backend1 ''T1'' = Inr record1"
  by (simp add: backend1_eq tstore_RecordLatest_def record1_def)

lemma backend1_public:
  "fst (RecordSetStatus exampleExternals ''T1'' StatusPublic [] [] backend1) =
     Inr \<lparr>r_RecordMetadata =
            \<lparr>rm_Token = ''5431'', rm_Version = 1, rm_Iteration = 1,
             rm_State = StateVetted, rm_Status = StatusPublic,
             rm_Timestamp = 1000, rm_Merkle = ''aa''\<rparr>,
          r_Metadata = [], r_Files = [fileA]\<rparr>"
  by (simp add: backend1_eq run_defs fileA_def)

lemma backend1_censored:
  "fst (RecordSetStatus exampleExternals ''T1'' StatusCensored [] [] backend1) =
     Inr \<lparr>r_RecordMetadata =
            \<lparr>rm_Token = ''5431'', rm_Version = 1, rm_Iteration = 2,
             rm_State = StateUnvetted, rm_Status = StatusCensored,
             rm_Timestamp = 1000, rm_Merkle = ''aa''\<rparr>,
          r_Metadata = [], r_Files = []\<rparr>"
  by (simp add: backend1_eq run_defs fileA_def)

subsection \<open>Status transitions\<close>

text \<open>
  C2: \<open>RecordSetStatus\<close> permits exactly the transitions unreviewed to public,
  unreviewed to censored, public to censored and public to archived. On a record that
  exists and was loaded with status \<open>from_s\<close>, by a backend that is not shutting down
  (the checks that precede the transition check), every other pair makes
  \<open>RecordSetStatus\<close> return \<open>StatusTransitionError from_s to_s\<close> and leave the
  backend as it was: no iteration saved, no hook called. A permitted pair never yields a
  \<open>StatusTransitionError\<close>, and the call succeeds when the merkle root can be
  computed, no plugin vetoes and the log is not frozen.
\<close>

theorem RecordSetStatus_transitions:
  assumes ex: "tstore_RecordExists t token" and up: "\<not> isShutdown t"
    and latest: "tstore_RecordLatest t token = Inr r"
    and cur: "rm_Status (r_RecordMetadata r) = from_s"
  shows "(statusChangeIsAllowed from_s to_s \<longleftrightarrow>
            (from_s, to_s) \<in> {(StatusUnreviewed, StatusPublic), (StatusUnreviewed, StatusCensored),
                              (StatusPublic, StatusCensored), (StatusPublic, StatusArchived)}) \<and>
         (\<not> statusChangeIsAllowed from_s to_s \<longrightarrow>
            RecordSetStatus ext token to_s mdAppend mdOverwrite t
              = (Inl (StatusTransitionError from_s to_s), t)) \<and>
         (statusChangeIsAllowed from_s to_s \<longrightarrow>
            (\<forall>a b. fst (RecordSetStatus ext token to_s mdAppend mdOverwrite t)
                      \<noteq> Inl (StatusTransitionError a b)) \<and>
            (MerkleRoot ext (map f_Digest (r_Files r)) \<noteq> None \<and>
             (\<forall>p. pluginHookPre ext HookTypeSetRecordStatusPre p = None) \<and>
             (\<forall>tr. map_of (trees t) token = Some tr \<longrightarrow> \<not> tr_frozen tr) \<longrightarrow>
             (\<exists>r'. fst (RecordSetStatus ext token to_s mdAppend mdOverwrite t) = Inr r')))"
proof (intro conjI impI allI)
  show "statusChangeIsAllowed from_s to_s \<longleftrightarrow>
            (from_s, to_s) \<in> {(StatusUnreviewed, StatusPublic), (StatusUnreviewed, StatusCensored),
                              (StatusPublic, StatusCensored), (StatusPublic, StatusArchived)}"
    by (rule statusChangeIsAllowed_iff)
next
  assume "\<not> statusChangeIsAllowed from_s to_s"
  with ex up latest cur
  show "RecordSetStatus ext token to_s mdAppend mdOverwrite t
          = (Inl (StatusTransitionError from_s to_s), t)"
    by (simp add: RecordSetStatus_def)
next
  fix a b
  assume "statusChangeIsAllowed from_s to_s"
  with ex up latest cur
  show "fst (RecordSetStatus ext token to_s mdAppend mdOverwrite t)
          \<noteq> Inl (StatusTransitionError a b)"
    by (auto simp: RecordSetStatus_def Let_def PluginHookPre_def recordMetadataNew_def
        updateRecordStatus_no_transition_error
        split: sum.splits option.splits prod.splits)
next
  assume allowed: "statusChangeIsAllowed from_s to_s"
    and good: "MerkleRoot ext (map f_Digest (r_Files r)) \<noteq> None \<and>
             (\<forall>p. pluginHookPre ext HookTypeSetRecordStatusPre p = None) \<and>
             (\<forall>tr. map_of (trees t) token = Some tr \<longrightarrow> \<not> tr_frozen tr)"
  from ex obtain tr where tr: "map_of (trees t) token = Some tr"
    by (auto simp: tstore_RecordExists_def)
  with good have nf: "\<not> tr_frozen tr" by simp
  from allowed have st: "to_s \<in> {StatusPublic, StatusCensored, StatusArchived}"
    by (auto simp: statusChangeIsAllowed_iff)
  from good obtain m where m: "MerkleRoot ext (map f_Digest (r_Files r)) = Some m" by auto
  define state where "state = (if to_s = StatusPublic then StateVetted
                   else rm_State (r_RecordMetadata r))"
  define version where "version = (if to_s = StatusPublic then 1 else rm_Version (r_RecordMetadata r))"
  define iter where "iter = (if to_s = StatusPublic then 1 else rm_Iteration (r_RecordMetadata r) + 1)"
  obtain recordMD where md: "recordMetadataNew ext (clock t) token (r_Files r) state to_s version iter = Inr recordMD"
    using m by (simp add: recordMetadataNew_def)
  define metadata where "metadata = metadataStreamsUpdate (r_Metadata r) mdAppend mdOverwrite"
  define t1 where "t1 = t\<lparr>hookCalls := hookCalls t @ [(HookTypeSetRecordStatusPre, HookSetRecordStatus r recordMD metadata)]\<rparr>"
  have hook: "PluginHookPre ext HookTypeSetRecordStatusPre (HookSetRecordStatus r recordMD metadata) t = (None, t1)"
    using good by (simp add: PluginHookPre_def t1_def)
  have "map_of (trees t1) token = Some tr" using tr by (simp add: t1_def)
  from updateRecordStatus_succeeds [OF this nf st]
  obtain t2 where t2: "updateRecordStatus token to_s recordMD metadata (r_Files r) t1 = (None, t2)"
    by blast
  from updateRecordStatus_latest [OF t2]
  obtain r2 where r2: "tstore_RecordLatest t2 token = Inr r2" by blast
  show "\<exists>r'. fst (RecordSetStatus ext token to_s mdAppend mdOverwrite t) = Inr r'"
    using ex up latest cur allowed md hook t2 r2
    by (simp add: RecordSetStatus_def Let_def state_def version_def iter_def metadata_def)
qed

theorem RecordSetStatus_transitions_witness:
  "tstore_RecordExists backend1 ''T1'' \<and> \<not> isShutdown backend1 \<and>
   \<not> statusChangeIsAllowed StatusUnreviewed StatusArchived \<and>
   RecordSetStatus exampleExternals ''T1'' StatusArchived [] [] backend1
     = (Inl (StatusTransitionError StatusUnreviewed StatusArchived), backend1) \<and>
   statusChangeIsAllowed StatusUnreviewed StatusPublic \<and>
   (\<exists>r'. fst (RecordSetStatus exampleExternals ''T1'' StatusPublic [] [] backend1) = Inr r')"
proof -
  have ex: "tstore_RecordExists backend1 ''T1''"
    by (simp add: backend1_eq tstore_RecordExists_def)
  have up: "\<not> isShutdown backend1"
    by (simp add: backend1_eq isShutdown_def)
  have no: "\<not> statusChangeIsAllowed StatusUnreviewed StatusArchived"
    by (simp add: statusChangeIsAllowed_def statusChanges_def)
  have yes: "statusChangeIsAllowed StatusUnreviewed StatusPublic"
    by (simp add: statusChangeIsAllowed_def statusChanges_def)
  have good: "MerkleRoot exampleExternals (map f_Digest (r_Files record1)) \<noteq> None \<and>
      (\<forall>p. pluginHookPre exampleExternals HookTypeSetRecordStatusPre p = None) \<and>
      (\<forall>tr. map_of (trees backend1) ''T1'' = Some tr \<longrightarrow> \<not> tr_frozen tr)"
    by (simp add: exampleExternals_def backend1_eq)
  have cur: "rm_Status (r_RecordMetadata record1) = StatusUnreviewed"
    by (simp add: record1_def)
  note T = RecordSetStatus_transitions [OF ex up backend1_latest cur]
  from T [of StatusArchived exampleExternals "[]" "[]"]
       T [of StatusPublic exampleExternals "[]" "[]"] ex up no yes good
  show ?thesis by simp
qed

text \<open>
  C3: a successful \<open>RecordSetStatus\<close> to public saves record metadata with state
  vetted, version 1 and iteration 1; a successful \<open>RecordSetStatus\<close> to any other
  status (which is then censored or archived) keeps state and version and saves the
  previous iteration plus one (in \<open>uint32\<close> arithmetic). The record \<open>r'\<close> that is
  returned is the latest iteration of the log after the call.
\<close>

theorem RecordSetStatus_saved_metadata:
  assumes latest: "tstore_RecordLatest t token = Inr r"
    and ok: "RecordSetStatus ext token status mdAppend mdOverwrite t = (Inr r', t')"
  shows "tstore_RecordLatest t' token = Inr r' \<and>
         rm_Status (r_RecordMetadata r') = status \<and>
         (if status = StatusPublic then
            rm_State (r_RecordMetadata r') = StateVetted \<and>
            rm_Version (r_RecordMetadata r') = 1 \<and>
            rm_Iteration (r_RecordMetadata r') = 1
          else
            status \<in> {StatusCensored, StatusArchived} \<and>
            rm_State (r_RecordMetadata r') = rm_State (r_RecordMetadata r) \<and>
            rm_Version (r_RecordMetadata r') = rm_Version (r_RecordMetadata r) \<and>
            rm_Iteration (r_RecordMetadata r') = rm_Iteration (r_RecordMetadata r) + 1)"
proof (cases "status = StatusPublic")
  case True
  with ok latest show ?thesis
    by (auto simp: RecordSetStatus_def Let_def PluginHookPre_def
        dest!: updateRecordStatus_latest recordMetadataNew_fields
        split: sum.splits option.splits prod.splits if_splits)
next
  case False
  with ok latest show ?thesis
    by (auto simp: RecordSetStatus_def Let_def PluginHookPre_def
        dest!: updateRecordStatus_latest recordMetadataNew_fields
        split: sum.splits option.splits prod.splits if_splits)
qed

theorem RecordSetStatus_saved_metadata_witness:
  "(\<exists>r'. fst (RecordSetStatus exampleExternals ''T1'' StatusPublic [] [] backend1) = Inr r' \<and>
         rm_State (r_RecordMetadata r') = StateVetted \<and>
         rm_Version (r_RecordMetadata r') = 1 \<and>
         rm_Iteration (r_RecordMetadata r') = 1) \<and>
   (\<exists>r'. fst (RecordSetStatus exampleExternals ''T1'' StatusCensored [] [] backend1) = Inr r' \<and>
         rm_State (r_RecordMetadata r') = StateUnvetted \<and>
         rm_Version (r_RecordMetadata r') = 1 \<and>
         rm_Iteration (r_RecordMetadata r') = 1 + 1)"
proof -
  obtain r1 t1 where run1:
    "RecordSetStatus exampleExternals ''T1'' StatusPublic [] [] backend1 = (Inr r1, t1)"
    using backend1_public by (metis prod.collapse)
  obtain r2 t2 where run2:
    "RecordSetStatus exampleExternals ''T1'' StatusCensored [] [] backend1 = (Inr r2, t2)"
    using backend1_censored by (metis prod.collapse)
  from RecordSetStatus_saved_metadata [OF backend1_latest run1]
       RecordSetStatus_saved_metadata [OF backend1_latest run2] run1 run2
  show ?thesis by (simp add: record1_def)
qed

text \<open>
  C10: whenever \<open>statusChangeIsAllowed from_s to_s\<close> holds, \<open>to_s\<close> is public,
  censored or archived; so \<open>RecordSetStatus\<close> never returns the "unknown status" error
  of the default branch of its status switch, whatever its arguments.
\<close>

theorem statusChangeIsAllowed_targets:
  "(statusChangeIsAllowed from_s to_s \<longrightarrow>
      to_s \<in> {StatusPublic, StatusCensored, StatusArchived}) \<and>
   fst (RecordSetStatus ext token status mdAppend mdOverwrite t) \<noteq> Inl (ErrUnknownStatus st)"
proof
  show "statusChangeIsAllowed from_s to_s \<longrightarrow>
      to_s \<in> {StatusPublic, StatusCensored, StatusArchived}"
    by (auto simp: statusChangeIsAllowed_iff)
next
  show "fst (RecordSetStatus ext token status mdAppend mdOverwrite t) \<noteq> Inl (ErrUnknownStatus st)"
  proof (cases "tstore_RecordLatest t token")
    case (Inl e)
    then show ?thesis by (simp add: RecordSetStatus_def)
  next
    case (Inr r)
    show ?thesis
    proof (cases "statusChangeIsAllowed (rm_Status (r_RecordMetadata r)) status")
      case False
      with Inr show ?thesis by (simp add: RecordSetStatus_def)
    next
      case True
      then show ?thesis
        using Inr
        by (auto simp: RecordSetStatus_def Let_def PluginHookPre_not_unknown
            recordMetadataNew_not_unknown statusChangeIsAllowed_iff
            dest!: updateRecordStatus_unknownD
            split: sum.splits option.splits prod.splits)
    qed
  qed
qed

theorem statusChangeIsAllowed_targets_witness:
  "statusChangeIsAllowed StatusPublic StatusArchived \<and>
   StatusArchived \<in> {StatusPublic, StatusCensored, StatusArchived} \<and>
   fst (RecordSetStatus exampleExternals ''T1'' (StatusOther 7) [] [] backend1)
     \<noteq> Inl (ErrUnknownStatus (StatusOther 7))"
proof -
  have "statusChangeIsAllowed StatusPublic StatusArchived"
    by (simp add: statusChangeIsAllowed_def statusChanges_def)
  with statusChangeIsAllowed_targets
         [of StatusPublic StatusArchived exampleExternals "''T1''" "StatusOther 7" "[]" "[]"
             backend1 "StatusOther 7"]
  show ?thesis by simp
qed

subsection \<open>Iterations saved by a sequence of operations\<close>

lemma savedIterations_PluginHookPre:
  "PluginHookPre ext h p t = (e, t') \<Longrightarrow> savedIterations t' token = savedIterations t token"
  by (auto simp: PluginHookPre_def savedIterations_def)

lemma savedIterations_PluginHookPost [simp]:
  "savedIterations (PluginHookPost h p t) token = savedIterations t token"
  by (simp add: PluginHookPost_def savedIterations_def)

lemma savedIterations_inventoryUpdate [simp]:
  "savedIterations (inventoryUpdate st tok status t) token = savedIterations t token"
  by (simp add: inventoryUpdate_def savedIterations_def)

lemma savedIterations_inventoryMoveToVetted [simp]:
  "savedIterations (inventoryMoveToVetted tok status t) token = savedIterations t token"
  by (simp add: inventoryMoveToVetted_def savedIterations_def)

lemma latest_savedIterations:
  "tstore_RecordLatest t token = Inr r \<Longrightarrow>
   savedIterations t token \<noteq> [] \<and> last (savedIterations t token) = rm_Iteration (r_RecordMetadata r)"
  by (auto simp: tstore_RecordLatest_def savedIterations_def last_rev
      split: option.splits list.splits if_splits)

lemma RecordSave_savedIterations:
  "tstore_RecordSave token rm md files t = (e, t') \<Longrightarrow>
   savedIterations t' token = savedIterations t token \<or>
   savedIterations t' token = savedIterations t token @ [rm_Iteration rm]"
  by (auto simp: tstore_RecordSave_def savedIterations_def map_of_update_same
      split: option.splits if_splits)

lemma RecordFreeze_savedIterations:
  "tstore_RecordFreeze token rm md files t = (e, t') \<Longrightarrow>
   savedIterations t' token = savedIterations t token \<or>
   savedIterations t' token = savedIterations t token @ [rm_Iteration rm]"
  by (auto simp: tstore_RecordFreeze_def savedIterations_def map_of_update_same
      split: option.splits if_splits)

lemma RecordDel_savedIterations:
  "tstore_RecordDel token t = (e, t') \<Longrightarrow> savedIterations t' token = savedIterations t token"
  by (auto simp: tstore_RecordDel_def savedIterations_def map_of_update_same
      split: option.splits if_splits)

lemma updateRecordStatus_savedIterations:
  "updateRecordStatus token status rm md files t = (e, t') \<Longrightarrow>
   savedIterations t' token = savedIterations t token \<or>
   savedIterations t' token = savedIterations t token @ [rm_Iteration rm]"
  by (cases status)
     (auto simp: updateRecordStatus_def setStatusPublic_def setStatusArchived_def
        setStatusCensored_def
      dest!: RecordSave_savedIterations RecordFreeze_savedIterations RecordDel_savedIterations
      split: prod.splits option.splits)

text \<open>
  One operation either leaves the saved iterations of the record as they are, or appends
  the last one plus one.
\<close>

lemma RecordEdit_stepsByOne:
  "stepsByOne (savedIterations t token)
     (savedIterations (snd (RecordEdit ext token mdAppend mdOverwrite filesAdd filesDel t)) token)"
proof (cases "tstore_RecordLatest t token")
  case (Inl e)
  then show ?thesis
    by (simp add: RecordEdit_def stepsByOne_def split: option.splits)
next
  case (Inr r)
  from latest_savedIterations [OF this] Inr show ?thesis
    by (auto simp: RecordEdit_def stepsByOne_def Let_def
        dest!: recordMetadataNew_fields savedIterations_PluginHookPre [where token = token]
               RecordSave_savedIterations
        split: option.splits sum.splits prod.splits if_splits)
qed

lemma RecordEditMetadata_stepsByOne:
  "stepsByOne (savedIterations t token)
     (savedIterations (snd (RecordEditMetadata ext token mdAppend mdOverwrite t)) token)"
proof (cases "tstore_RecordLatest t token")
  case (Inl e)
  then show ?thesis
    by (simp add: RecordEditMetadata_def stepsByOne_def split: option.splits)
next
  case (Inr r)
  from latest_savedIterations [OF this] Inr show ?thesis
    by (auto simp: RecordEditMetadata_def stepsByOne_def Let_def
        dest!: recordMetadataNew_fields savedIterations_PluginHookPre [where token = token]
               RecordSave_savedIterations
        split: option.splits sum.splits prod.splits if_splits)
qed

lemma RecordSetStatus_stepsByOne:
  assumes "status \<noteq> StatusPublic"
  shows "stepsByOne (savedIterations t token)
     (savedIterations (snd (RecordSetStatus ext token status mdAppend mdOverwrite t)) token)"
proof (cases "tstore_RecordLatest t token")
  case (Inl e)
  then show ?thesis
    by (simp add: RecordSetStatus_def stepsByOne_def split: option.splits)
next
  case (Inr r)
  from latest_savedIterations [OF this] Inr assms show ?thesis
    by (auto simp: RecordSetStatus_def stepsByOne_def Let_def
        dest!: recordMetadataNew_fields savedIterations_PluginHookPre [where token = token]
               updateRecordStatus_savedIterations
        split: option.splits sum.splits prod.splits if_splits)
qed

lemma applyOp_stepsByOne:
  "\<not> isPublish op \<Longrightarrow>
   stepsByOne (savedIterations t token) (savedIterations (applyOp ext token op t) token)"
  by (cases op)
     (simp_all add: RecordEdit_stepsByOne RecordEditMetadata_stepsByOne RecordSetStatus_stepsByOne)

lemma runOps_appended:
  assumes "\<forall>op \<in> set ops. \<not> isPublish op"
  shows "\<exists>rest. savedIterations (runOps ext token ops t) token = savedIterations t token @ rest \<and>
           consecutive (last (savedIterations t token) # rest) \<and>
           length rest \<le> length ops \<and>
           (savedIterations t token = [] \<longrightarrow> rest = [])"
  using assms
proof (induction ops arbitrary: t)
  case Nil
  then show ?case by simp
next
  case (Cons op ops)
  let ?t' = "applyOp ext token op t"
  from Cons.prems have np: "\<not> isPublish op" and nps: "\<forall>op \<in> set ops. \<not> isPublish op"
    by simp_all
  from Cons.IH [OF nps, of ?t'] obtain rest where
    r: "savedIterations (runOps ext token ops ?t') token = savedIterations ?t' token @ rest"
      "consecutive (last (savedIterations ?t' token) # rest)"
      "length rest \<le> length ops"
      "savedIterations ?t' token = [] \<longrightarrow> rest = []"
    by blast
  from applyOp_stepsByOne [OF np, of t token ext]
  consider (same) "savedIterations ?t' token = savedIterations t token"
    | (more) "savedIterations t token \<noteq> []"
        "savedIterations ?t' token
           = savedIterations t token @ [last (savedIterations t token) + 1]"
    by (auto simp: stepsByOne_def)
  then show ?case
  proof cases
    case same
    with r show ?thesis by auto
  next
    case more
    with r have "savedIterations (runOps ext token (op # ops) t) token
        = savedIterations t token @ ((last (savedIterations t token) + 1) # rest)"
      and "consecutive (last (savedIterations t token)
             # (last (savedIterations t token) + 1) # rest)"
      and "length ((last (savedIterations t token) + 1) # rest) \<le> length (op # ops)"
      by simp_all
    with more(1) show ?thesis by blast
  qed
qed

lemma consecutive_strictlyIncreasing:
  "consecutive (a # rest) \<Longrightarrow> unat a + length rest < 2 ^ 32 \<Longrightarrow>
   strictlyIncreasing (a # rest) \<and> (\<forall>x \<in> set rest. a < x)"
proof (induction rest arbitrary: a)
  case Nil
  then show ?case by (simp add: strictlyIncreasing_def)
next
  case (Cons b r)
  from Cons.prems(1) [unfolded consecutive.simps]
  have b: "b = a + 1" and c: "consecutive (b # r)" by blast+
  from Cons.prems(2) have bound: "unat a + 1 < 2 ^ 32" by simp
  from bound have lt: "a < a + 1" and u: "unat (a + 1) = unat a + 1"
    by (simp_all add: word_less_nat_alt unat_word_ariths)
  from Cons.prems(2) u b have "unat b + length r < 2 ^ 32" by simp
  from Cons.IH [OF c this] have inc: "strictlyIncreasing (b # r)"
    and above: "\<forall>x \<in> set r. b < x" by simp_all
  from lt b have ab: "a < b" by simp
  with above have "\<forall>x \<in> set (b # r). a < x" by fastforce
  with inc show ?case by (simp add: strictlyIncreasing_def)
qed

lemma strictlyIncreasing_le_last:
  "strictlyIncreasing xs \<Longrightarrow> x \<in> set xs \<Longrightarrow> x \<le> last xs"
  by (cases xs rule: rev_cases) (auto simp: strictlyIncreasing_def sorted_wrt_append)

lemma drop_butlast:
  "xs \<noteq> [] \<Longrightarrow> drop (length xs - Suc 0) xs = [last xs]"
  by (cases xs rule: rev_cases) simp_all

lemmas edit_defs =
  metadataStreamsVerify_def filesVerify_def filesVerify_file_def filepath_Base_def
  stripTrailingSlashes_def filesUpdate_def fileA_def fileB_def applyOverwrite_def
  applyAppend_def streamKey_def savedIterations_def FormatUint.simps

lemma run_edit_publish:
  "savedIterations
     (runOps exampleExternals ''T1''
        [OpRecordEdit [] [] [fileB] [], OpRecordSetStatus StatusPublic [] []] backend1) ''T1''
   = [1, 2, 1]"
  by (simp add: backend1_eq run_defs edit_defs)

lemma run_edit_meta_censor:
  "savedIterations
     (runOps exampleExternals ''T1''
        [OpRecordEdit [] [] [fileB] [], OpRecordEditMetadata [streamA] [],
         OpRecordSetStatus StatusCensored [] []] backend1) ''T1''
   = [1, 2, 3, 4]"
  by (simp add: backend1_eq run_defs edit_defs streamA_def)

lemma publicBackend_iterations: "savedIterations publicBackend ''T1'' = [1, 1]"
  unfolding publicBackend_def by (simp add: backend1_eq run_defs edit_defs)

lemma run_public_edit_archive:
  "savedIterations
     (runOps exampleExternals ''T1''
        [OpRecordEdit [] [] [fileB] [], OpRecordSetStatus StatusArchived [] []] publicBackend) ''T1''
   = [1, 1, 2, 3]"
  unfolding publicBackend_def by (simp add: backend1_eq run_defs edit_defs)

text \<open>
  C1, as stated, fails: the scenario of the spec itself (create, edit, publish) saves the
  iterations 1, 2, 1, because \<open>RecordSetStatus\<close> resets version and iteration to 1
  when a record is made public.
\<close>

theorem iteration_counterexample:
  "savedIterations
     (runOps exampleExternals ''T1''
        [OpRecordEdit [] [] [fileB] [], OpRecordSetStatus StatusPublic [] []] backend1) ''T1''
   = [1, 2, 1] \<and>
   \<not> strictlyIncreasing (savedIterations
     (runOps exampleExternals ''T1''
        [OpRecordEdit [] [] [fileB] [], OpRecordSetStatus StatusPublic [] []] backend1) ''T1'')"
proof -
  have "\<not> strictlyIncreasing [1, 2, 1]"
    by (simp add: strictlyIncreasing_def)
  then show ?thesis
    unfolding run_edit_publish by simp
qed

text \<open>
  C1, amended: for any sequence of \<open>RecordEdit\<close>, \<open>RecordEditMetadata\<close> and
  \<open>RecordSetStatus\<close> calls on one record, none of which sets the status to public, and
  whatever the earlier history of the record (it may have been published before), as long
  as the \<open>uint32\<close> counter cannot overflow during the sequence: the iterations saved
  before the sequence stay as they are, every call saves at most one iteration, and the
  iteration the record had before the sequence followed by the iterations the sequence
  saves is strictly increasing, each one the previous one plus one. If the iterations
  saved before the sequence were strictly increasing, so are all of them after it.
\<close>

theorem iteration_increasing:
  assumes "\<forall>op \<in> set ops. \<not> isPublish op"
    and "savedIterations t token \<noteq> [] \<longrightarrow>
           unat (last (savedIterations t token)) + length ops < 2 ^ 32"
  shows "take (length (savedIterations t token))
           (savedIterations (runOps ext token ops t) token) = savedIterations t token \<and>
         length (savedIterations (runOps ext token ops t) token)
           \<le> length (savedIterations t token) + length ops \<and>
         consecutive (savedSince t (runOps ext token ops t) token) \<and>
         strictlyIncreasing (savedSince t (runOps ext token ops t) token) \<and>
         (strictlyIncreasing (savedIterations t token) \<longrightarrow>
           strictlyIncreasing (savedIterations (runOps ext token ops t) token))"
proof -
  let ?old = "savedIterations t token"
  from runOps_appended [OF assms(1), of ext token t] obtain rest where
    r: "savedIterations (runOps ext token ops t) token = ?old @ rest"
      "consecutive (last ?old # rest)" "length rest \<le> length ops"
      "?old = [] \<longrightarrow> rest = []"
    by blast
  from r(1) have A: "take (length ?old) (savedIterations (runOps ext token ops t) token) = ?old"
    by simp
  from r(1,3) have B: "length (savedIterations (runOps ext token ops t) token)
           \<le> length ?old + length ops"
    by simp
  have C: "consecutive (savedSince t (runOps ext token ops t) token)"
  proof (cases "?old = []")
    case True
    with r show ?thesis by (simp add: savedSince_def)
  next
    case False
    with r show ?thesis by (simp add: savedSince_def drop_butlast)
  qed
  have si: "?old \<noteq> [] \<Longrightarrow> strictlyIncreasing (last ?old # rest) \<and> (\<forall>x \<in> set rest. last ?old < x)"
  proof -
    assume ne: "?old \<noteq> []"
    with assms(2) r(3) have "unat (last ?old) + length rest < 2 ^ 32" by simp
    from consecutive_strictlyIncreasing [OF r(2) this] show ?thesis .
  qed
  have D: "strictlyIncreasing (savedSince t (runOps ext token ops t) token)"
  proof (cases "?old = []")
    case True
    with r show ?thesis by (simp add: savedSince_def strictlyIncreasing_def)
  next
    case False
    with r si show ?thesis by (simp add: savedSince_def drop_butlast)
  qed
  have E: "strictlyIncreasing ?old \<longrightarrow>
           strictlyIncreasing (savedIterations (runOps ext token ops t) token)"
  proof
    assume inc: "strictlyIncreasing ?old"
    show "strictlyIncreasing (savedIterations (runOps ext token ops t) token)"
    proof (cases "?old = []")
      case True
      with r show ?thesis by (simp add: strictlyIncreasing_def)
    next
      case False
      from si [OF False] have a: "sorted_wrt (\<lambda>a b. a < b) rest"
        and b: "\<forall>y \<in> set rest. last ?old < y"
        by (simp_all add: strictlyIncreasing_def)
      have "\<forall>x \<in> set ?old. \<forall>y \<in> set rest. x < y"
        using strictlyIncreasing_le_last [OF inc] b by fastforce
      with inc a show ?thesis
        unfolding r(1) by (simp add: strictlyIncreasing_def sorted_wrt_append)
    qed
  qed
  from A B C D E show ?thesis by blast
qed

theorem iteration_increasing_witness:
  "savedIterations publicBackend ''T1'' = [1, 1] \<and>
   savedIterations
     (runOps exampleExternals ''T1''
        [OpRecordEdit [] [] [fileB] [], OpRecordSetStatus StatusArchived [] []]
        publicBackend) ''T1'' = [1, 1, 2, 3] \<and>
   savedSince publicBackend
     (runOps exampleExternals ''T1''
        [OpRecordEdit [] [] [fileB] [], OpRecordSetStatus StatusArchived [] []]
        publicBackend) ''T1'' = [1, 2, 3] \<and>
   consecutive (savedSince publicBackend
     (runOps exampleExternals ''T1''
        [OpRecordEdit [] [] [fileB] [], OpRecordSetStatus StatusArchived [] []]
        publicBackend) ''T1'') \<and>
   strictlyIncreasing (savedSince publicBackend
     (runOps exampleExternals ''T1''
        [OpRecordEdit [] [] [fileB] [], OpRecordSetStatus StatusArchived [] []]
        publicBackend) ''T1'') \<and>
   savedIterations backend1 ''T1'' = [1] \<and>
   savedIterations
     (runOps exampleExternals ''T1''
        [OpRecordEdit [] [] [fileB] [], OpRecordEditMetadata [streamA] [],
         OpRecordSetStatus StatusCensored [] []] backend1) ''T1'' = [1, 2, 3, 4] \<and>
   strictlyIncreasing (savedIterations
     (runOps exampleExternals ''T1''
        [OpRecordEdit [] [] [fileB] [], OpRecordEditMetadata [streamA] [],
         OpRecordSetStatus StatusCensored [] []] backend1) ''T1'')"
proof -
  let ?ops2 = "[OpRecordEdit [] [] [fileB] [], OpRecordSetStatus StatusArchived [] []]"
  let ?ops1 = "[OpRecordEdit [] [] [fileB] [], OpRecordEditMetadata [streamA] [],
         OpRecordSetStatus StatusCensored [] []]"
  have start: "savedIterations backend1 ''T1'' = [1]"
    by (simp add: backend1_eq savedIterations_def)
  have a1: "\<forall>op \<in> set ?ops2. \<not> isPublish op" by simp
  have a2: "savedIterations publicBackend ''T1'' \<noteq> [] \<longrightarrow>
      unat (last (savedIterations publicBackend ''T1'')) + length ?ops2 < 2 ^ 32"
    by (simp add: publicBackend_iterations)
  have b1: "\<forall>op \<in> set ?ops1. \<not> isPublish op" by simp
  have b2: "savedIterations backend1 ''T1'' \<noteq> [] \<longrightarrow>
      unat (last (savedIterations backend1 ''T1'')) + length ?ops1 < 2 ^ 32"
    by (simp add: start)
  have b3: "strictlyIncreasing (savedIterations backend1 ''T1'')"
    by (simp add: start strictlyIncreasing_def)
  from iteration_increasing [OF a1 a2, of exampleExternals]
  have pub: "consecutive (savedSince publicBackend
                (runOps exampleExternals ''T1'' ?ops2 publicBackend) ''T1'')"
      "strictlyIncreasing (savedSince publicBackend
                (runOps exampleExternals ''T1'' ?ops2 publicBackend) ''T1'')"
    by blast+
  from iteration_increasing [OF b1 b2, of exampleExternals] b3
  have unv: "strictlyIncreasing (savedIterations
                (runOps exampleExternals ''T1'' ?ops1 backend1) ''T1'')"
    by blast
  have since: "savedSince publicBackend
                (runOps exampleExternals ''T1'' ?ops2 publicBackend) ''T1'' = [1, 2, 3]"
    unfolding savedSince_def publicBackend_iterations run_public_edit_archive by simp
  from pub unv since start publicBackend_iterations run_public_edit_archive
       run_edit_meta_censor
  show ?thesis by blast
qed

subsection \<open>Edits that change no file\<close>

text \<open>
  C4, as stated, fails: an edit with no file to add and none to delete leaves the file
  set, and so its merkle root, as it was, but it is rejected by the content validation
  with \<open>ContentError\<close> (files empty), not with \<open>ErrNoRecordChanges\<close>.
\<close>

theorem RecordEdit_no_changes_counterexample:
  "tstore_RecordLatest backend1 ''T1'' = Inr record1 \<and>
   MerkleRoot exampleExternals (map f_Digest (filesUpdate (r_Files record1) [] []))
     = Some (rm_Merkle (r_RecordMetadata record1)) \<and>
   RecordEdit exampleExternals ''T1'' [] [] [] [] backend1
     = (Inl (ContentError ContentErrorFilesEmpty []), backend1)"
  by (simp add: backend1_latest record1_def exampleExternals_def filesUpdate_def fileA_def
      RecordEdit_def metadataStreamsVerify_def filesVerify_def)

text \<open>
  C4, amended: whenever the file set that a \<open>RecordEdit\<close> produces has the merkle root
  of the previous iteration, \<open>RecordEdit\<close> returns an error and leaves the backend as
  it was, so that no iteration is saved and neither the pre nor the post hook fires; and
  when the edit passes the validation of its metadata streams and files and the backend
  is not shut down, that error is \<open>ErrNoRecordChanges\<close>.
\<close>

theorem RecordEdit_no_changes:
  assumes latest: "tstore_RecordLatest t token = Inr r"
    and same: "MerkleRoot ext (map f_Digest (filesUpdate (r_Files r) filesAdd filesDel))
                 = Some (rm_Merkle (r_RecordMetadata r))"
  shows "(\<exists>e. RecordEdit ext token mdAppend mdOverwrite filesAdd filesDel t = (Inl e, t)) \<and>
         (metadataStreamsVerify (mdAppend @ mdOverwrite) = None \<and>
          filesVerify ext filesAdd filesDel = None \<and> \<not> isShutdown t \<longrightarrow>
            RecordEdit ext token mdAppend mdOverwrite filesAdd filesDel t
              = (Inl ErrNoRecordChanges, t))"
proof -
  from latest have ex: "tstore_RecordExists t token"
    by (auto simp: tstore_RecordLatest_def tstore_RecordExists_def split: option.splits)
  from latest same ex show ?thesis
    by (auto simp: RecordEdit_def Let_def recordMetadataNew_def
        split: option.splits)
qed

theorem RecordEdit_no_changes_witness:
  "RecordEdit exampleExternals ''T1'' [] [] [fileA] [] backend1
     = (Inl ErrNoRecordChanges, backend1)"
proof -
  have same: "MerkleRoot exampleExternals (map f_Digest (filesUpdate (r_Files record1) [fileA] []))
                = Some (rm_Merkle (r_RecordMetadata record1))"
    by (simp add: exampleExternals_def filesUpdate_def fileA_def record1_def)
  have v: "metadataStreamsVerify ([] @ []) = None"
    "filesVerify exampleExternals [fileA] [] = None" "\<not> isShutdown backend1"
    by (simp_all add: edit_defs exampleExternals_def backend1_eq isShutdown_def)
  from RecordEdit_no_changes [OF backend1_latest same, of "[]" "[]"] v
  show ?thesis by simp
qed

subsection \<open>Validation of files\<close>

lemma filesVerify_paths_None: "filesVerify_paths ns = None \<longleftrightarrow> (\<forall>n \<in> set ns. filepath_Base n = n)"
  by (induction ns) auto

lemma filesVerify_paths_error: "filesVerify_paths ns = Some e \<Longrightarrow> isContentError (Some e)"
  by (induction ns) (auto split: if_splits)

lemma filesVerify_dups_None:
  "filesVerify_dups fn ns = None \<longleftrightarrow> distinct ns \<and> set ns \<inter> set fn = {}"
  by (induction ns arbitrary: fn) auto

lemma filesVerify_dups_error: "filesVerify_dups fn ns = Some e \<Longrightarrow> isContentError (Some e)"
  by (induction ns arbitrary: fn) (auto split: if_splits)

lemma filesVerify_file_None:
  "filesVerify_file ext f = None \<longleftrightarrow>
     Sanitize ext (f_Name f) = f_Name f \<and> f_Payload f \<noteq> [] \<and> digestMatches ext f \<and>
     mimeMatches ext f \<and> MimeValid ext (f_MIME f)"
  by (auto simp: filesVerify_file_def digestMatches_def mimeMatches_def split: option.splits)

lemma filesVerify_file_error: "filesVerify_file ext f = Some e \<Longrightarrow> isContentError (Some e)"
  by (auto simp: filesVerify_file_def split: option.splits if_splits)

lemma filesVerify_files_None:
  "filesVerify_files ext fs = None \<longleftrightarrow> (\<forall>f \<in> set fs. filesVerify_file ext f = None)"
  by (induction fs) (auto split: option.splits)

lemma filesVerify_files_error: "filesVerify_files ext fs = Some e \<Longrightarrow> isContentError (Some e)"
  by (induction fs) (auto split: option.splits dest: filesVerify_file_error)

lemma filesVerify_error: "filesVerify ext files filesDel = Some e \<Longrightarrow> isContentError (Some e)"
  by (auto simp: filesVerify_def split: if_splits option.splits
      dest: filesVerify_paths_error filesVerify_dups_error filesVerify_files_error)

lemma filesVerify_None_parts:
  "filesVerify ext files filesDel = None \<longleftrightarrow>
     \<not> (files = [] \<and> filesDel = []) \<and>
     filesVerify_paths (map f_Name files) = None \<and>
     filesVerify_paths filesDel = None \<and>
     filesVerify_dups [] (map f_Name files @ filesDel) = None \<and>
     filesVerify_files ext files = None"
  by (cases "filesVerify_paths (map f_Name files)"; cases "filesVerify_paths filesDel";
      cases "filesVerify_dups [] (map f_Name files @ filesDel)")
     (simp_all add: filesVerify_def)

lemma filesVerify_None:
  "filesVerify ext files filesDel = None \<longleftrightarrow>
     \<not> (files = [] \<and> filesDel = []) \<and>
     (\<forall>f \<in> set files. filepath_Base (f_Name f) = f_Name f) \<and>
     (\<forall>n \<in> set filesDel. filepath_Base n = n) \<and>
     distinct (map f_Name files @ filesDel) \<and>
     (\<forall>f \<in> set files. Sanitize ext (f_Name f) = f_Name f \<and> f_Payload f \<noteq> [] \<and>
        digestMatches ext f \<and> mimeMatches ext f \<and> MimeValid ext (f_MIME f))"
  unfolding filesVerify_None_parts filesVerify_paths_None filesVerify_dups_None
    filesVerify_files_None filesVerify_file_None
  by simp

text \<open>
  Names to delete are checked for being their own base name and for duplicates only:
  no parameter of the model, so no sanitizer, decides whether a request that only deletes
  passes.
\<close>

lemma filesVerify_delete_only:
  "filesVerify ext [] filesDel = None \<longleftrightarrow>
     filesDel \<noteq> [] \<and> (\<forall>n \<in> set filesDel. filepath_Base n = n) \<and> distinct filesDel"
  by (simp add: filesVerify_None)

text \<open>
  C7, as stated, fails for the names to delete: \<open>filesVerify\<close> compares only the names
  of the files to add with their sanitized form. The name \<open>a?b\<close> is its own base name
  and differs from its sanitized form, and the request to delete it passes the
  validation.
\<close>

theorem filesVerify_delete_name_counterexample:
  "filepath_Base ''a?b'' = ''a?b'' \<and>
   Sanitize exampleExternals ''a?b'' \<noteq> ''a?b'' \<and>
   filesVerify exampleExternals [] [''a?b''] = None"
  by (simp add: filesVerify_delete_only filepath_Base_def stripTrailingSlashes_def
      exampleExternals_def)

text \<open>
  C7, amended: \<open>filesVerify\<close> (applied by \<open>RecordNew\<close> and \<open>RecordEdit\<close>) rejects
  with a \<open>ContentError\<close> whenever both the list of files to add and the list of names
  to delete are empty; the name of a file to add or a name to delete is not its own base
  name; the name of a file to add differs from its sanitized form; a name appears twice
  across the two lists; the declared digest of a file is not the SHA256 of its decoded
  payload; the MIME type detected from the payload differs from the declared one; or the
  declared MIME type is not in the allowed set.
\<close>

theorem filesVerify_rejects:
  assumes "(files = [] \<and> filesDel = []) \<or>
     (\<exists>f \<in> set files. filepath_Base (f_Name f) \<noteq> f_Name f) \<or>
     (\<exists>n \<in> set filesDel. filepath_Base n \<noteq> n) \<or>
     (\<exists>f \<in> set files. Sanitize ext (f_Name f) \<noteq> f_Name f) \<or>
     \<not> distinct (map f_Name files @ filesDel) \<or>
     (\<exists>f \<in> set files. \<not> digestMatches ext f) \<or>
     (\<exists>f \<in> set files. \<not> mimeMatches ext f) \<or>
     (\<exists>f \<in> set files. \<not> MimeValid ext (f_MIME f))"
  shows "isContentError (filesVerify ext files filesDel)"
proof (cases "filesVerify ext files filesDel")
  case None
  then show ?thesis using assms unfolding filesVerify_None by blast
next
  case (Some e)
  then show ?thesis by (simp add: filesVerify_error)
qed

theorem filesVerify_rejects_witness:
  "\<not> digestMatches exampleExternals (fileA\<lparr>f_Digest := ''zz''\<rparr>) \<and>
   isContentError (filesVerify exampleExternals [fileA\<lparr>f_Digest := ''zz''\<rparr>] []) \<and>
   \<not> distinct (map f_Name [fileB] @ [''b.txt'']) \<and>
   isContentError (filesVerify exampleExternals [fileB] [''b.txt''])"
proof -
  have d: "\<not> digestMatches exampleExternals (fileA\<lparr>f_Digest := ''zz''\<rparr>)"
    by (simp add: digestMatches_def exampleExternals_def fileA_def)
  have n: "\<not> distinct (map f_Name [fileB] @ [''b.txt''])"
    by (simp add: fileB_def)
  from d have "isContentError (filesVerify exampleExternals [fileA\<lparr>f_Digest := ''zz''\<rparr>] [])"
    by (intro filesVerify_rejects) simp
  moreover from n have "isContentError (filesVerify exampleExternals [fileB] [''b.txt''])"
    by (intro filesVerify_rejects) simp
  ultimately show ?thesis using d n by simp
qed

subsection \<open>Merging metadata streams\<close>

text \<open>The body of each loop of \<open>metadataStreamsUpdate\<close>, as an update of the map.\<close>

lemma map_of_applyOverwrite:
  "map_of (applyOverwrite v md) = (map_of md)(streamKey v \<mapsto> v)"
  by (simp add: applyOverwrite_def update_conv')

lemma map_of_applyAppend:
  "map_of (applyAppend v md) =
     (case map_of md (streamKey v) of
        None \<Rightarrow> (map_of md)(streamKey v \<mapsto> v)
      | Some m \<Rightarrow> (map_of md)(streamKey v \<mapsto> m\<lparr>ms_Payload := ms_Payload m @ ms_Payload v\<rparr>))"
  by (simp add: applyAppend_def update_conv' split: option.splits)

lemma streamKey_streamId: "streamId u = streamId v \<Longrightarrow> streamKey u = streamKey v"
  by (simp add: streamId_def streamKey_def)

lemma collisionFree_subset: "collisionFree ys \<Longrightarrow> set xs \<subseteq> set ys \<Longrightarrow> collisionFree xs"
  by (auto simp: collisionFree_def)

lemma distinct_keys:
  "collisionFree xs \<Longrightarrow> distinct (map streamId xs) \<Longrightarrow> distinct (map streamKey xs)"
proof (induction xs)
  case Nil
  then show ?case by simp
next
  case (Cons x xs)
  from Cons.prems(1) have cf: "collisionFree xs"
    by (rule collisionFree_subset) auto
  have "streamKey x \<notin> streamKey ` set xs"
  proof
    assume "streamKey x \<in> streamKey ` set xs"
    then obtain y where y: "y \<in> set xs" "streamKey x = streamKey y" by auto
    with Cons.prems(1) have "streamId x = streamId y"
      unfolding collisionFree_def by (metis list.set_intros)
    with y(1) have "streamId x \<in> streamId ` set xs" by (metis imageI)
    with Cons.prems(2) show False by simp
  qed
  with Cons.IH [OF cf] Cons.prems(2) show ?case by simp
qed

lemma fold_applyOverwrite_other:
  "k \<notin> streamKey ` set xs \<Longrightarrow> map_of (fold applyOverwrite xs md) k = map_of md k"
  by (induction xs arbitrary: md) (auto simp: map_of_applyOverwrite)

lemma fold_applyOverwrite_same:
  "distinct (map streamKey xs) \<Longrightarrow> x \<in> set xs \<Longrightarrow>
   map_of (fold applyOverwrite xs md) (streamKey x) = Some x"
  by (induction xs arbitrary: md)
     (auto simp: map_of_applyOverwrite fold_applyOverwrite_other)

lemma fold_applyAppend_other:
  "k \<notin> streamKey ` set xs \<Longrightarrow> map_of (fold applyAppend xs md) k = map_of md k"
  by (induction xs arbitrary: md) (auto simp: map_of_applyAppend split: option.splits)

lemma fold_applyAppend_same:
  "distinct (map streamKey xs) \<Longrightarrow> v \<in> set xs \<Longrightarrow>
   map_of (fold applyAppend xs md) (streamKey v) =
     (case map_of md (streamKey v) of
        None \<Rightarrow> Some v
      | Some m \<Rightarrow> Some (m\<lparr>ms_Payload := ms_Payload m @ ms_Payload v\<rparr>))"
proof (induction xs arbitrary: md)
  case Nil
  then show ?case by simp
next
  case (Cons a xs)
  from Cons.prems(1) have na: "streamKey a \<notin> streamKey ` set xs" and d: "distinct (map streamKey xs)"
    by simp_all
  show ?case
  proof (cases "v = a")
    case True
    have "map_of (fold applyAppend xs (applyAppend a md)) (streamKey a)
            = map_of (applyAppend a md) (streamKey a)"
      using na by (rule fold_applyAppend_other)
    with True show ?thesis
      by (simp add: map_of_applyAppend split: option.splits)
  next
    case False
    with Cons.prems(2) have v: "v \<in> set xs" by simp
    with na have ne: "streamKey v \<noteq> streamKey a" by (metis imageI)
    have "map_of (applyAppend a md) (streamKey v) = map_of md (streamKey v)"
      using ne by (simp add: map_of_applyAppend split: option.splits)
    with Cons.IH [OF d v, of "applyAppend a md"] show ?thesis by simp
  qed
qed

lemma in_set_update:
  "p \<in> set (AList.update k v al) \<Longrightarrow> p = (k, v) \<or> p \<in> set al"
  by (induction al) (auto split: if_splits)

lemma wellKeyed_update:
  "wellKeyed md \<Longrightarrow> k = streamKey x \<Longrightarrow> wellKeyed (AList.update k x md)"
  unfolding wellKeyed_def
  by (auto simp: distinct_update dest!: in_set_update)

lemma wellKeyed_applyOverwrite: "wellKeyed md \<Longrightarrow> wellKeyed (applyOverwrite v md)"
  by (simp add: applyOverwrite_def wellKeyed_update)

lemma wellKeyed_applyAppend: "wellKeyed md \<Longrightarrow> wellKeyed (applyAppend v md)"
proof (cases "map_of md (streamKey v)")
  case None
  assume "wellKeyed md"
  with None show ?thesis by (simp add: applyAppend_def wellKeyed_update)
next
  case (Some m)
  assume w: "wellKeyed md"
  from Some have "(streamKey v, m) \<in> set md" by (rule map_of_SomeD)
  with w have "streamKey v = streamKey m" by (auto simp: wellKeyed_def)
  then have "streamKey v = streamKey (m\<lparr>ms_Payload := ms_Payload m @ ms_Payload v\<rparr>)"
    by (simp add: streamKey_def)
  with w Some show ?thesis by (simp add: applyAppend_def wellKeyed_update)
qed

lemma wellKeyed_fold_overwrite: "wellKeyed md \<Longrightarrow> wellKeyed (fold applyOverwrite xs md)"
  by (induction xs arbitrary: md) (simp_all add: wellKeyed_applyOverwrite)

lemma wellKeyed_fold_append: "wellKeyed md \<Longrightarrow> wellKeyed (fold applyAppend xs md)"
  by (induction xs arbitrary: md) (simp_all add: wellKeyed_applyAppend)

lemma wellKeyed_member:
  assumes "wellKeyed md" and "m \<in> set (map snd md)"
  shows "map_of md (streamKey m) = Some m"
proof -
  from assms(2) obtain k where "(k, m) \<in> set md" by auto
  with assms(1) have "(streamKey m, m) \<in> set md" "distinct (map fst md)"
    by (auto simp: wellKeyed_def)
  then show ?thesis by simp
qed

lemma member_of_lookup: "map_of md k = Some x \<Longrightarrow> x \<in> set (map snd md)"
  by (force dest: map_of_SomeD)


lemma append_new:
  assumes "distinct (map streamKey mdAppend)" and "v \<in> set mdAppend"
    and "streamKey v \<notin> streamKey ` set current"
    and "streamKey v \<notin> streamKey ` set mdOverwrite"
  shows "v \<in> set (metadataStreamsUpdate current mdAppend mdOverwrite)"
proof -
  let ?al0 = "fold applyOverwrite current []"
  let ?al1 = "fold applyOverwrite mdOverwrite ?al0"
  have "map_of ?al1 (streamKey v) = map_of ?al0 (streamKey v)"
    using assms(4) by (rule fold_applyOverwrite_other)
  also have "\<dots> = map_of [] (streamKey v)"
    using assms(3) by (rule fold_applyOverwrite_other)
  finally have "map_of ?al1 (streamKey v) = None" by simp
  then have "map_of (fold applyAppend mdAppend ?al1) (streamKey v) = Some v"
    by (simp only: fold_applyAppend_same [OF assms(1,2)] option.case)
  then show ?thesis
    unfolding metadataStreamsUpdate_def by (rule member_of_lookup)
qed

lemma append_existing:
  assumes "distinct (map streamKey current)" and "distinct (map streamKey mdAppend)"
    and "v \<in> set mdAppend" and "m \<in> set current" and "streamKey m = streamKey v"
    and "streamKey v \<notin> streamKey ` set mdOverwrite"
  shows "m\<lparr>ms_Payload := ms_Payload m @ ms_Payload v\<rparr>
           \<in> set (metadataStreamsUpdate current mdAppend mdOverwrite)"
proof -
  let ?al0 = "fold applyOverwrite current []"
  let ?al1 = "fold applyOverwrite mdOverwrite ?al0"
  have "map_of ?al1 (streamKey v) = map_of ?al0 (streamKey v)"
    using assms(6) by (rule fold_applyOverwrite_other)
  also have "\<dots> = map_of ?al0 (streamKey m)"
    by (simp only: assms(5))
  also have "\<dots> = Some m"
    using assms(1,4) by (rule fold_applyOverwrite_same)
  finally have "map_of ?al1 (streamKey v) = Some m" .
  then have "map_of (fold applyAppend mdAppend ?al1) (streamKey v)
      = Some (m\<lparr>ms_Payload := ms_Payload m @ ms_Payload v\<rparr>)"
    by (simp only: fold_applyAppend_same [OF assms(2,3)] option.case)
  then show ?thesis
    unfolding metadataStreamsUpdate_def by (rule member_of_lookup)
qed

lemma overwrite_entry:
  assumes "distinct (map streamKey mdOverwrite)" and "v \<in> set mdOverwrite"
    and "streamKey v \<notin> streamKey ` set mdAppend"
  shows "v \<in> set (metadataStreamsUpdate current mdAppend mdOverwrite) \<and>
         (\<forall>m \<in> set (metadataStreamsUpdate current mdAppend mdOverwrite).
            streamKey m = streamKey v \<longrightarrow> m = v)"
proof -
  let ?al1 = "fold applyOverwrite mdOverwrite (fold applyOverwrite current [])"
  let ?al2 = "fold applyAppend mdAppend ?al1"
  have wk: "wellKeyed ?al2"
    by (intro wellKeyed_fold_append wellKeyed_fold_overwrite) (simp add: wellKeyed_def)
  have "map_of ?al2 (streamKey v) = map_of ?al1 (streamKey v)"
    using assms(3) by (rule fold_applyAppend_other)
  also have "\<dots> = Some v"
    using assms(1,2) by (rule fold_applyOverwrite_same)
  finally have l: "map_of ?al2 (streamKey v) = Some v" .
  have "m = v" if "m \<in> set (map snd ?al2)" "streamKey m = streamKey v" for m
  proof -
    from wellKeyed_member [OF wk that(1)] have "map_of ?al2 (streamKey m) = Some m" .
    then have "map_of ?al2 (streamKey v) = Some m" by (simp only: that(2))
    with l show ?thesis by (simp only: option.inject)
  qed
  moreover from l have "v \<in> set (map snd ?al2)" by (rule member_of_lookup)
  ultimately show ?thesis
    unfolding metadataStreamsUpdate_def by blast
qed


lemma distinct_map_appendD:
  "distinct (map f (xs @ ys)) \<Longrightarrow> x \<in> set xs \<Longrightarrow> y \<in> set ys \<Longrightarrow> f x \<noteq> f y"
  by (induction xs) (auto simp: image_iff)

text \<open>
  Where no two streams collide on their key, and each of the current streams and each
  of the requested changes has an identity of its own (as \<open>metadataStreamsVerify\<close>
  demands of the changes), the merge does what its comments say: an append for a stream
  that does not exist yet creates it with the payload of the append, an append for an
  existing stream concatenates the payload onto it, and an overwrite puts its stream in
  the place of every stream of that identity.
\<close>

lemma metadataStreamsUpdate_without_collision:
  assumes cf: "collisionFree (current @ mdAppend @ mdOverwrite)"
    and dc: "distinct (map streamId current)"
    and da: "distinct (map streamId (mdAppend @ mdOverwrite))"
  shows "(\<forall>v \<in> set mdAppend.
            ((\<forall>m \<in> set current. streamId m \<noteq> streamId v) \<longrightarrow>
               v \<in> set (metadataStreamsUpdate current mdAppend mdOverwrite)) \<and>
            (\<forall>m \<in> set current. streamId m = streamId v \<longrightarrow>
               m\<lparr>ms_Payload := ms_Payload m @ ms_Payload v\<rparr>
                 \<in> set (metadataStreamsUpdate current mdAppend mdOverwrite))) \<and>
         (\<forall>v \<in> set mdOverwrite.
            v \<in> set (metadataStreamsUpdate current mdAppend mdOverwrite) \<and>
            (\<forall>m \<in> set (metadataStreamsUpdate current mdAppend mdOverwrite).
               streamId m = streamId v \<longrightarrow> m = v))"
proof (intro conjI ballI impI)
  have kc: "distinct (map streamKey current)"
    by (rule distinct_keys [OF collisionFree_subset [OF cf] dc]) auto
  have ka: "distinct (map streamKey mdAppend)"
  proof (rule distinct_keys [OF collisionFree_subset [OF cf]])
    show "set mdAppend \<subseteq> set (current @ mdAppend @ mdOverwrite)" by auto
    from da show "distinct (map streamId mdAppend)" by simp
  qed
  have ko: "distinct (map streamKey mdOverwrite)"
  proof (rule distinct_keys [OF collisionFree_subset [OF cf]])
    show "set mdOverwrite \<subseteq> set (current @ mdAppend @ mdOverwrite)" by auto
    from da show "distinct (map streamId mdOverwrite)" by simp
  qed
  have key: "streamId u = streamId v"
    if "u \<in> set (current @ mdAppend @ mdOverwrite)" "v \<in> set (current @ mdAppend @ mdOverwrite)"
      "streamKey u = streamKey v" for u v
    using cf that unfolding collisionFree_def by blast
  have ao: "streamKey v \<notin> streamKey ` set mdOverwrite" if v: "v \<in> set mdAppend" for v
  proof
    assume "streamKey v \<in> streamKey ` set mdOverwrite"
    then obtain w where w: "w \<in> set mdOverwrite" "streamKey v = streamKey w" by (rule imageE)
    have "streamId v = streamId w"
      by (rule key [OF _ _ w(2)]) (use v w(1) in simp_all)
    with distinct_map_appendD [OF da v w(1)] show False by (rule notE)
  qed
  have oa: "streamKey w \<notin> streamKey ` set mdAppend" if w: "w \<in> set mdOverwrite" for w
  proof
    assume "streamKey w \<in> streamKey ` set mdAppend"
    then obtain v where v: "v \<in> set mdAppend" "streamKey w = streamKey v" by (rule imageE)
    have "streamId v = streamId w"
      by (rule key [OF _ _ v(2) [symmetric]]) (use v(1) w in simp_all)
    with distinct_map_appendD [OF da v(1) w] show False by (rule notE)
  qed
  {
    fix v assume v: "v \<in> set mdAppend"
      and none: "\<forall>m \<in> set current. streamId m \<noteq> streamId v"
    have "streamKey v \<notin> streamKey ` set current"
    proof
      assume "streamKey v \<in> streamKey ` set current"
      then obtain m where m: "m \<in> set current" "streamKey v = streamKey m" by (rule imageE)
      have "streamId m = streamId v"
        by (rule key [OF _ _ m(2) [symmetric]]) (use v m(1) in simp_all)
      with none m(1) show False by blast
    qed
    then show "v \<in> set (metadataStreamsUpdate current mdAppend mdOverwrite)"
      by (rule append_new [OF ka v _ ao [OF v]])
  next
    fix v m assume v: "v \<in> set mdAppend" and m: "m \<in> set current"
      and same: "streamId m = streamId v"
    from same have "streamKey m = streamKey v" by (rule streamKey_streamId)
    then show "m\<lparr>ms_Payload := ms_Payload m @ ms_Payload v\<rparr>
                 \<in> set (metadataStreamsUpdate current mdAppend mdOverwrite)"
      by (rule append_existing [OF kc ka v m _ ao [OF v]])
  next
    fix v assume v: "v \<in> set mdOverwrite"
    from overwrite_entry [OF ko v oa [OF v], of current]
    show "v \<in> set (metadataStreamsUpdate current mdAppend mdOverwrite)" by (rule conjunct1)
  next
    fix v m assume v: "v \<in> set mdOverwrite"
      and m: "m \<in> set (metadataStreamsUpdate current mdAppend mdOverwrite)"
      and same: "streamId m = streamId v"
    from same have "streamKey m = streamKey v" by (rule streamKey_streamId)
    with overwrite_entry [OF ko v oa [OF v], of current] m show "m = v" by blast
  }
qed

text \<open>
  C9 fails on the code by a key collision. The map is keyed by the plugin id followed by
  the decimal stream id, with nothing between them, so the streams \<open>("a", 12)\<close> and
  \<open>("a1", 2)\<close> share the key \<open>a12\<close>. An append for \<open>("a1", 2)\<close>, which has no
  existing stream, is concatenated onto the stream \<open>("a", 12)\<close> instead of creating
  the stream; and an overwrite for \<open>("a1", 2)\<close> replaces the stream \<open>("a", 12)\<close>.
  Both streams pass \<open>metadataStreamsVerify\<close>, so the backend receives them: a record
  created with the stream \<open>("a", 12)\<close> and then edited with an append for
  \<open>("a1", 2)\<close> ends with the single stream \<open>("a", 12)\<close> and the payload \<open>xy\<close>.
\<close>

theorem metadataStreamsUpdate_key_collision:
  "streamId streamA12 \<noteq> streamId streamA1_2 \<and>
   streamKey streamA12 = streamKey streamA1_2 \<and>
   metadataStreamsUpdate [streamA12] [streamA1_2] []
     = [\<lparr>ms_PluginID = ''a'', ms_StreamID = 12, ms_Payload = ''xy''\<rparr>] \<and>
   metadataStreamsUpdate [streamA12] [] [streamA1_2] = [streamA1_2] \<and>
   metadataStreamsVerify [streamA12] = None \<and>
   metadataStreamsVerify ([streamA1_2] @ []) = None \<and>
   map_sum (\<lambda>e. e) r_Metadata
     (fst (RecordEditMetadata exampleExternals ''T1'' [streamA1_2] []
             (snd (RecordNew exampleExternals [streamA12] [fileA] emptyBackend))))
   = Inr [\<lparr>ms_PluginID = ''a'', ms_StreamID = 12, ms_Payload = ''xy''\<rparr>]"
  by code_simp

subsection \<open>The anchor engine: the loops of anchorWait\<close>

lemma retries_eq: "retries = 36"
  by (simp add: retries_def period_def)

lemma anchorSave_snd:
  "droppingAnchor (snd (anchorSave ext a t)) = droppingAnchor t \<and>
   (\<exists>new. events (snd (anchorSave ext a t)) = events t @ new \<and> (\<forall>ev \<in> set new. isSave ev))"
  by (auto simp: anchorSave_def logEvent_def Let_def split: if_splits option.splits sum.splits)

lemma saveAnchors_events:
  "droppingAnchor (snd (saveAnchors ext vds k as t)) = droppingAnchor t \<and>
   (\<exists>new. events (snd (saveAnchors ext vds k as t)) = events t @ new \<and>
          (\<forall>ev \<in> set new. isSave ev))"
proof (induction as arbitrary: k t)
  case Nil
  then show ?case by simp
next
  case (Cons v vs)
  let ?t1 = "snd (anchorSave ext (v\<lparr>a_VerifyDigest := Some (vds ! k)\<rparr>) t)"
  have "snd (saveAnchors ext vds k (v # vs) t) = t \<or>
        snd (saveAnchors ext vds k (v # vs) t) = snd (saveAnchors ext vds (k + 1) vs t) \<or>
        snd (saveAnchors ext vds k (v # vs) t) = snd (saveAnchors ext vds (k + 1) vs ?t1)"
    by (simp add: Let_def split: option.splits)
  then consider (stop) "snd (saveAnchors ext vds k (v # vs) t) = t"
    | (skip) "snd (saveAnchors ext vds k (v # vs) t) = snd (saveAnchors ext vds (k + 1) vs t)"
    | (save) "snd (saveAnchors ext vds k (v # vs) t) = snd (saveAnchors ext vds (k + 1) vs ?t1)"
    by blast
  then show ?case
  proof cases
    case stop
    then show ?thesis by simp
  next
    case skip
    with Cons.IH [of "k + 1" t] show ?thesis by simp
  next
    case save
    from anchorSave_snd [of ext "v\<lparr>a_VerifyDigest := Some (vds ! k)\<rparr>" t]
    obtain n1 where 1: "droppingAnchor ?t1 = droppingAnchor t"
      "events ?t1 = events t @ n1" "\<forall>ev \<in> set n1. isSave ev" by blast
    from Cons.IH [of "k + 1" ?t1]
    obtain n2 where 2: "droppingAnchor (snd (saveAnchors ext vds (k + 1) vs ?t1)) = droppingAnchor ?t1"
      "events (snd (saveAnchors ext vds (k + 1) vs ?t1)) = events ?t1 @ n2"
      "\<forall>ev \<in> set n2. isSave ev" by blast
    have "events (snd (saveAnchors ext vds k (v # vs) t)) = events t @ (n1 @ n2)"
      using save 1 2 by simp
    moreover have "\<forall>ev \<in> set (n1 @ n2). isSave ev" using 1 2 by auto
    ultimately show ?thesis using save 1 2 by metis
  qed
qed

lemma anchorWait_loop_shape:
  "anchorWait_loop ext anchors digests i t = (res, t') \<Longrightarrow>
   droppingAnchor t' = droppingAnchor t \<and>
   (\<exists>n saves.
      events t' = events t @ concat (replicate n (pollPair digests)) @ saves \<and>
      (\<forall>ev \<in> set saves. isSave ev) \<and> n \<le> retries - i \<and>
      (case res of
         WaitDropped k \<Rightarrow> k + 1 = i + n \<and> goodAttempt ext digests k
       | WaitPanic k \<Rightarrow> k + 1 = i + n \<and> goodAttempt ext digests k
       | WaitVerifyBatchError e \<Rightarrow> saves = [] \<and> 1 \<le> n
       | WaitTimeout \<Rightarrow> saves = [] \<and> n = retries - i
       | WaitReentrant \<Rightarrow> False))"
proof (induction ext anchors digests i t arbitrary: res t' rule: anchorWait_loop.induct)
  case (1 ext anchors digests i t)
  let ?t1 = "logEvent (EvTick period) t"
  let ?t2 = "logEvent (EvVerifyBatch anchorID digests) ?t1"
  have ev2: "events ?t2 = events t @ concat (replicate 1 (pollPair digests))"
    and dr2: "droppingAnchor ?t2 = droppingAnchor t"
    by (simp_all add: logEvent_def pollPair_def)
  show ?case
  proof (cases "i < retries")
    case False
    with "1.prems" have "res = WaitTimeout" "t' = t"
      by (simp_all add: anchorWait_loop.simps)
    with False show ?thesis
      by (intro conjI exI [of _ 0] exI [of _ "[]"]) simp_all
  next
    case True
    show ?thesis
    proof (cases "verifyBatch ext i anchorID digests")
      case (Inl err)
      with True "1.prems" have r: "res = WaitVerifyBatchError (TstoreErrorf ''verifyBatch'' err)" "t' = ?t2"
        by (simp_all add: anchorWait_loop.simps [of ext anchors digests i t] Let_def)
      show ?thesis
        using r ev2 dr2 True
        by (intro conjI exI [of _ 1] exI [of _ "[]"]) simp_all
    next
      case (Inr vbr)
      show ?thesis
      proof (cases "length (anchoredDigests [] vbr) = length digests")
        case False
        with True Inr "1.prems"
        have rec: "anchorWait_loop ext anchors digests (i + 1) ?t2 = (res, t')"
          by (simp add: anchorWait_loop.simps [of ext anchors digests i t] Let_def)
        from "1.IH" [OF True refl refl Inr False rec]
        obtain n saves where IH: "droppingAnchor t' = droppingAnchor ?t2"
          "events t' = events ?t2 @ concat (replicate n (pollPair digests)) @ saves"
          "\<forall>ev \<in> set saves. isSave ev" "n \<le> retries - (i + 1)"
          "(case res of
             WaitDropped k \<Rightarrow> k + 1 = i + 1 + n \<and> goodAttempt ext digests k
           | WaitPanic k \<Rightarrow> k + 1 = i + 1 + n \<and> goodAttempt ext digests k
           | WaitVerifyBatchError e \<Rightarrow> saves = [] \<and> 1 \<le> n
           | WaitTimeout \<Rightarrow> saves = [] \<and> n = retries - (i + 1)
           | WaitReentrant \<Rightarrow> False)"
          by blast
        have e: "events t' = events t @ concat (replicate (Suc n) (pollPair digests)) @ saves"
          using IH(2) ev2 by simp
        have b: "Suc n \<le> retries - i" using IH(4) True by simp
        have c: "(case res of
             WaitDropped k \<Rightarrow> k + 1 = i + Suc n \<and> goodAttempt ext digests k
           | WaitPanic k \<Rightarrow> k + 1 = i + Suc n \<and> goodAttempt ext digests k
           | WaitVerifyBatchError e \<Rightarrow> saves = [] \<and> 1 \<le> Suc n
           | WaitTimeout \<Rightarrow> saves = [] \<and> Suc n = retries - i
           | WaitReentrant \<Rightarrow> False)"
          using IH(5) True by (cases res) auto
        from IH(1) dr2 e IH(3) b c show ?thesis by blast
      next
        case eq: True
        let ?t3 = "snd (saveAnchors ext vbr 0 anchors ?t2)"
        from True Inr eq "1.prems"
        have r: "(res = WaitDropped i \<or> res = WaitPanic i)" "t' = ?t3"
          by (auto simp: anchorWait_loop.simps [of ext anchors digests i t] Let_def
              split: prod.splits bool.splits if_splits)
        from saveAnchors_events [of ext vbr 0 anchors ?t2]
        obtain saves where s: "droppingAnchor ?t3 = droppingAnchor ?t2"
          "events ?t3 = events ?t2 @ saves" "\<forall>ev \<in> set saves. isSave ev" by blast
        have g: "goodAttempt ext digests i"
          using True Inr eq by (simp add: goodAttempt_def)
        have e: "events t' = events t @ concat (replicate 1 (pollPair digests)) @ saves"
          using r s ev2 by simp
        have c: "(case res of
             WaitDropped k \<Rightarrow> k + 1 = i + 1 \<and> goodAttempt ext digests k
           | WaitPanic k \<Rightarrow> k + 1 = i + 1 \<and> goodAttempt ext digests k
           | WaitVerifyBatchError e \<Rightarrow> saves = [] \<and> 1 \<le> (1::nat)
           | WaitTimeout \<Rightarrow> saves = [] \<and> 1 = retries - i
           | WaitReentrant \<Rightarrow> False)"
          using r g by auto
        have b: "1 \<le> retries - i" using True by simp
        have d: "droppingAnchor t' = droppingAnchor t" using r s dr2 by simp
        from d e s(3) b c show ?thesis by blast
      qed
    qed
  qed
qed



lemma zeroTransaction_ne: "zeroTransaction \<noteq> ''ab''" "''ab'' \<noteq> zeroTransaction"
  by code_simp+

lemma set_anchoredDigests:
  "set (anchoredDigests acc vs) = set acc \<union> vd_Digest ` set (takeWhile digestIsAnchored vs)"
  by (induction vs arbitrary: acc) (auto simp: digestIsAnchored_def)

lemma distinct_anchoredDigests:
  "distinct acc \<Longrightarrow> distinct (anchoredDigests acc vs)"
  by (induction vs arbitrary: acc) auto

lemma length_anchoredDigests:
  "length (anchoredDigests [] vs) = card (vd_Digest ` set (takeWhile digestIsAnchored vs))"
proof -
  have "distinct (anchoredDigests [] vs)" by (simp add: distinct_anchoredDigests)
  then have "length (anchoredDigests [] vs) = card (set (anchoredDigests [] vs))"
    by (simp add: distinct_card)
  then show ?thesis by (simp add: set_anchoredDigests)
qed

lemma anchoredDigests_sound:
  assumes "d \<in> set (anchoredDigests [] vs)"
  shows "\<exists>v \<in> set vs. vd_Digest v = d \<and> vd_Result v = ResultOK \<and>
           ci_Transaction (vd_ChainInformation v) \<noteq> zeroTransaction \<and>
           ci_ChainTimestamp (vd_ChainInformation v) \<noteq> 0"
proof -
  from assms obtain v where v: "v \<in> set (takeWhile digestIsAnchored vs)" "vd_Digest v = d"
    by (auto simp: set_anchoredDigests)
  then have "v \<in> set vs" "digestIsAnchored v"
    by (auto dest: set_takeWhileD)
  with v show ?thesis by (auto simp: digestIsAnchored_def)
qed

lemma anchoredDigests_complete:
  assumes len: "length (anchoredDigests [] vs) = length digests"
    and contract: "map vd_Digest vs = digests"
  shows "\<forall>v \<in> set vs. digestIsAnchored v"
proof -
  let ?tw = "takeWhile digestIsAnchored vs"
  have "card (vd_Digest ` set ?tw) \<le> card (set ?tw)"
    by (rule card_image_le) simp
  also have "\<dots> \<le> length ?tw" by (rule card_length)
  finally have "length (anchoredDigests [] vs) \<le> length ?tw"
    by (simp add: length_anchoredDigests)
  moreover have "length vs = length digests" using contract by auto
  moreover have "length ?tw \<le> length vs" by (rule length_takeWhile_le)
  ultimately have "length ?tw = length vs" using len by simp
  then have "?tw = vs"
    by (metis takeWhile_eq_take take_all_iff order_refl append_take_drop_id
        takeWhile_dropWhile_id append_eq_conv_conj)
  then show ?thesis by (metis set_takeWhileD)
qed

lemma anchorWait_loop_retry:
  assumes "i < retries" and "verifyBatch ext i anchorID digests = Inr vbr"
    and "length (anchoredDigests [] vbr) \<noteq> length digests"
  shows "anchorWait_loop ext anchors digests i s =
         anchorWait_loop ext anchors digests (i + 1)
           (logEvent (EvVerifyBatch anchorID digests) (logEvent (EvTick period) s))"
  using assms by (simp add: anchorWait_loop.simps [of ext anchors digests i s] Let_def)

lemma pollCount_append [simp]: "pollCount (xs @ ys) = pollCount xs + pollCount ys"
  by (simp add: pollCount_def)

lemma saveCount_append [simp]: "saveCount (xs @ ys) = saveCount xs + saveCount ys"
  by (simp add: saveCount_def)

lemma minutesWaited_append [simp]: "minutesWaited (xs @ ys) = minutesWaited xs + minutesWaited ys"
  by (simp add: minutesWaited_def)

lemma counts_Nil [simp]: "pollCount [] = 0" "saveCount [] = 0" "minutesWaited [] = 0"
  by (simp_all add: pollCount_def saveCount_def minutesWaited_def)

lemma counts_Cons [simp]:
  "pollCount (e # es) = (if isPoll e then 1 else 0) + pollCount es"
  "saveCount (e # es) = (if isSave e then 1 else 0) + saveCount es"
  "minutesWaited (e # es) = tickMinutes e + minutesWaited es"
  by (simp_all add: pollCount_def saveCount_def minutesWaited_def)

lemma counts_pollPairs:
  "pollCount (concat (replicate n (pollPair ds))) = n"
  "saveCount (concat (replicate n (pollPair ds))) = 0"
  "minutesWaited (concat (replicate n (pollPair ds))) = period * n"
  by (induction n) (simp_all add: pollPair_def)

lemma counts_saves:
  assumes "\<forall>ev \<in> set saves. isSave ev"
  shows "pollCount saves = 0" "minutesWaited saves = 0"
     "\<forall>ev \<in> set saves. \<not> isGuardSet ev \<and> \<not> isSubmit ev"
proof -
  have *: "isSave ev \<Longrightarrow> \<not> isPoll ev \<and> tickMinutes ev = 0 \<and> \<not> isGuardSet ev \<and> \<not> isSubmit ev" for ev
    by (cases ev) simp_all
  from assms show "pollCount saves = 0"
    by (induction saves) (auto dest: *)
  from assms show "minutesWaited saves = 0"
    by (induction saves) (auto dest: *)
  from assms show "\<forall>ev \<in> set saves. \<not> isGuardSet ev \<and> \<not> isSubmit ev"
    by (auto dest: *)
qed


lemma anchorWait_reentrant:
  "droppingAnchor t \<Longrightarrow> anchorWait ext anchors digests t = (WaitReentrant, t)"
  by (simp add: anchorWait_def droppingAnchorGet_def)

lemma anchorWait_shape:
  assumes run: "anchorWait ext anchors digests t = (res, t')" and idle: "\<not> droppingAnchor t"
  shows "\<not> droppingAnchor t' \<and>
   (\<exists>n saves.
      events t' = events t @ [EvDroppingAnchorSet True]
                    @ concat (replicate n (pollPair digests)) @ saves
                    @ [EvDroppingAnchorSet False] \<and>
      (\<forall>ev \<in> set saves. isSave ev) \<and> n \<le> retries \<and>
      (case res of
         WaitDropped k \<Rightarrow> k + 1 = n \<and> goodAttempt ext digests k
       | WaitPanic k \<Rightarrow> k + 1 = n \<and> goodAttempt ext digests k
       | WaitVerifyBatchError e \<Rightarrow> saves = [] \<and> 1 \<le> n
       | WaitTimeout \<Rightarrow> saves = [] \<and> n = retries
       | WaitReentrant \<Rightarrow> False))"
proof -
  let ?t1 = "droppingAnchorSet True t"
  obtain t2 where loop: "anchorWait_loop ext anchors digests 0 ?t1 = (res, t2)"
    and t': "t' = droppingAnchorSet False t2"
    using run idle
    by (auto simp: anchorWait_def droppingAnchorGet_def Let_def split: prod.splits)
  from anchorWait_loop_shape [OF loop]
  obtain n saves where sh: "events t2 = events ?t1 @ concat (replicate n (pollPair digests)) @ saves"
    "\<forall>ev \<in> set saves. isSave ev" "n \<le> retries - 0"
    "(case res of
         WaitDropped k \<Rightarrow> k + 1 = 0 + n \<and> goodAttempt ext digests k
       | WaitPanic k \<Rightarrow> k + 1 = 0 + n \<and> goodAttempt ext digests k
       | WaitVerifyBatchError e \<Rightarrow> saves = [] \<and> 1 \<le> n
       | WaitTimeout \<Rightarrow> saves = [] \<and> n = retries - 0
       | WaitReentrant \<Rightarrow> False)"
    by blast
  have e: "events t' = events t @ [EvDroppingAnchorSet True]
                    @ concat (replicate n (pollPair digests)) @ saves
                    @ [EvDroppingAnchorSet False]"
    using sh(1) t' by (simp add: droppingAnchorSet_def)
  have d: "\<not> droppingAnchor t'" using t' by (simp add: droppingAnchorSet_def)
  from sh(3) have b: "n \<le> retries" by simp
  from sh(4) have c: "(case res of
         WaitDropped k \<Rightarrow> k + 1 = n \<and> goodAttempt ext digests k
       | WaitPanic k \<Rightarrow> k + 1 = n \<and> goodAttempt ext digests k
       | WaitVerifyBatchError e \<Rightarrow> saves = [] \<and> 1 \<le> n
       | WaitTimeout \<Rightarrow> saves = [] \<and> n = retries
       | WaitReentrant \<Rightarrow> False)"
    by (cases res) simp_all
  from d e sh(2) b c show ?thesis by blast
qed

subsection \<open>The anchor engine: the example, evaluated\<close>

lemma run_anchorTrees:
  "anchorTrees exampleServices idleTstore = (None, Some ([anchor1], [''52'']), submittedTstore)"
  by code_simp

lemma run_anchorWait_failing:
  "anchorWait failingServices [anchor1] [''52''] submittedTstore
     = (WaitVerifyBatchError (TstoreErrorf ''verifyBatch'' (TstoreError ''unreachable'')),
        failedTstore)"
  by code_simp

lemma run_anchorWait:
  "anchorWait exampleServices [anchor1] [''52''] submittedTstore = (WaitDropped 1, droppedTstore)"
  by code_simp

subsection \<open>Polling for the anchor\<close>

text \<open>
  C6: \<open>anchorWait\<close> polls dcrtime at most 36 times (\<open>retries = 180 / 5\<close>), each poll
  after one tick of a ticker of 5 minutes, so it waits 180 minutes at most. It goes on to
  save the anchors only at an attempt at which the map \<open>anchored\<close> is as large as the
  batch; every digest in that map comes from a reply with result OK, a transaction that
  is not the zero digest and a chain timestamp that is not zero; and when dcrtime answers
  with one reply per digest of the batch (the contract of \<open>VerifyBatch\<close>), every digest
  of the batch is anchored at that attempt. When \<open>anchorWait\<close> ends otherwise, nothing
  was written. An attempt whose reply holds a digest that is not yet anchored does
  nothing but go on to the next attempt, which polls the whole batch again.
\<close>

theorem anchorWait_polling:
  assumes run: "anchorWait ext anchors digests t = (res, t')"
  shows "retries = 36 \<and> period = 5 \<and>
    pollCount (events t') \<le> pollCount (events t) + 36 \<and>
    minutesWaited (events t')
      = minutesWaited (events t) + 5 * (pollCount (events t') - pollCount (events t)) \<and>
    minutesWaited (events t') \<le> minutesWaited (events t) + 180 \<and>
    (\<forall>k. res = WaitDropped k \<or> res = WaitPanic k \<longrightarrow>
       k < 36 \<and>
       (\<exists>vbr. verifyBatch ext k anchorID digests = Inr vbr \<and>
          length (anchoredDigests [] vbr) = length digests \<and>
          (\<forall>d \<in> set (anchoredDigests [] vbr).
             \<exists>v \<in> set vbr. vd_Digest v = d \<and> vd_Result v = ResultOK \<and>
               ci_Transaction (vd_ChainInformation v) \<noteq> zeroTransaction \<and>
               ci_ChainTimestamp (vd_ChainInformation v) \<noteq> 0) \<and>
          (map vd_Digest vbr = digests \<longrightarrow> (\<forall>v \<in> set vbr. digestIsAnchored v)))) \<and>
    ((\<forall>k. res \<noteq> WaitDropped k \<and> res \<noteq> WaitPanic k) \<longrightarrow>
       saveCount (events t') = saveCount (events t)) \<and>
    (\<forall>i vbr s. i < retries \<and> verifyBatch ext i anchorID digests = Inr vbr \<and>
        map vd_Digest vbr = digests \<and> (\<exists>v \<in> set vbr. \<not> digestIsAnchored v) \<longrightarrow>
        anchorWait_loop ext anchors digests i s =
        anchorWait_loop ext anchors digests (i + 1)
          (logEvent (EvVerifyBatch anchorID digests) (logEvent (EvTick period) s)))"
proof -
  have good: "k < 36 \<and>
       (\<exists>vbr. verifyBatch ext k anchorID digests = Inr vbr \<and>
          length (anchoredDigests [] vbr) = length digests \<and>
          (\<forall>d \<in> set (anchoredDigests [] vbr).
             \<exists>v \<in> set vbr. vd_Digest v = d \<and> vd_Result v = ResultOK \<and>
               ci_Transaction (vd_ChainInformation v) \<noteq> zeroTransaction \<and>
               ci_ChainTimestamp (vd_ChainInformation v) \<noteq> 0) \<and>
          (map vd_Digest vbr = digests \<longrightarrow> (\<forall>v \<in> set vbr. digestIsAnchored v)))"
    if "goodAttempt ext digests k" for k
  proof -
    from that obtain vbr where k: "k < retries"
      and v: "verifyBatch ext k anchorID digests = Inr vbr"
      and l: "length (anchoredDigests [] vbr) = length digests"
      by (auto simp: goodAttempt_def)
    show ?thesis
      using k v l anchoredDigests_sound [of _ vbr] anchoredDigests_complete [OF l]
      by (auto simp: retries_eq)
  qed
  have retry: "\<forall>i vbr s. i < retries \<and> verifyBatch ext i anchorID digests = Inr vbr \<and>
        map vd_Digest vbr = digests \<and> (\<exists>v \<in> set vbr. \<not> digestIsAnchored v) \<longrightarrow>
        anchorWait_loop ext anchors digests i s =
        anchorWait_loop ext anchors digests (i + 1)
          (logEvent (EvVerifyBatch anchorID digests) (logEvent (EvTick period) s))"
  proof (intro allI impI)
    fix i vbr s
    assume a: "i < retries \<and> verifyBatch ext i anchorID digests = Inr vbr \<and>
        map vd_Digest vbr = digests \<and> (\<exists>v \<in> set vbr. \<not> digestIsAnchored v)"
    then have "length (anchoredDigests [] vbr) \<noteq> length digests"
      using anchoredDigests_complete [of vbr digests] by blast
    with a show "anchorWait_loop ext anchors digests i s =
        anchorWait_loop ext anchors digests (i + 1)
          (logEvent (EvVerifyBatch anchorID digests) (logEvent (EvTick period) s))"
      by (intro anchorWait_loop_retry) auto
  qed
  have c1: "retries = 36" and c2: "period = 5"
    by (simp_all add: retries_eq period_def)
  show ?thesis
  proof (cases "droppingAnchor t")
    case True
    with run have r: "res = WaitReentrant" "t' = t"
      by (simp_all add: anchorWait_reentrant)
    have p: "pollCount (events t') \<le> pollCount (events t) + 36"
      and m: "minutesWaited (events t')
        = minutesWaited (events t) + 5 * (pollCount (events t') - pollCount (events t))"
      and m2: "minutesWaited (events t') \<le> minutesWaited (events t) + 180"
      and s: "(\<forall>k. res \<noteq> WaitDropped k \<and> res \<noteq> WaitPanic k) \<longrightarrow>
         saveCount (events t') = saveCount (events t)"
      using r by simp_all
    have g: "\<forall>k. res = WaitDropped k \<or> res = WaitPanic k \<longrightarrow>
       k < 36 \<and>
       (\<exists>vbr. verifyBatch ext k anchorID digests = Inr vbr \<and>
          length (anchoredDigests [] vbr) = length digests \<and>
          (\<forall>d \<in> set (anchoredDigests [] vbr).
             \<exists>v \<in> set vbr. vd_Digest v = d \<and> vd_Result v = ResultOK \<and>
               ci_Transaction (vd_ChainInformation v) \<noteq> zeroTransaction \<and>
               ci_ChainTimestamp (vd_ChainInformation v) \<noteq> 0) \<and>
          (map vd_Digest vbr = digests \<longrightarrow> (\<forall>v \<in> set vbr. digestIsAnchored v)))"
      using r by simp
    from c1 c2 p m m2 g s retry show ?thesis by blast
  next
    case False
    from anchorWait_shape [OF run False]
    obtain n saves where sh:
      "events t' = events t @ [EvDroppingAnchorSet True]
                    @ concat (replicate n (pollPair digests)) @ saves
                    @ [EvDroppingAnchorSet False]"
      "\<forall>ev \<in> set saves. isSave ev" "n \<le> retries"
      "(case res of
         WaitDropped k \<Rightarrow> k + 1 = n \<and> goodAttempt ext digests k
       | WaitPanic k \<Rightarrow> k + 1 = n \<and> goodAttempt ext digests k
       | WaitVerifyBatchError e \<Rightarrow> saves = [] \<and> 1 \<le> n
       | WaitTimeout \<Rightarrow> saves = [] \<and> n = retries
       | WaitReentrant \<Rightarrow> False)"
      by blast
    have pc: "pollCount (events t') = pollCount (events t) + n"
      using sh(1) counts_saves(1) [OF sh(2)]
      by (simp add: counts_pollPairs)
    have mw: "minutesWaited (events t') = minutesWaited (events t) + 5 * n"
      using sh(1) counts_saves(2) [OF sh(2)]
      by (simp add: counts_pollPairs c2)
    from sh(3) have n36: "n \<le> 36" by (simp add: retries_eq)
    have p: "pollCount (events t') \<le> pollCount (events t) + 36"
      and m: "minutesWaited (events t')
        = minutesWaited (events t) + 5 * (pollCount (events t') - pollCount (events t))"
      and m2: "minutesWaited (events t') \<le> minutesWaited (events t) + 180"
      using pc mw n36 by simp_all
    have s: "(\<forall>k. res \<noteq> WaitDropped k \<and> res \<noteq> WaitPanic k) \<longrightarrow>
         saveCount (events t') = saveCount (events t)"
    proof
      assume "\<forall>k. res \<noteq> WaitDropped k \<and> res \<noteq> WaitPanic k"
      with sh(4) have "saves = []" by (cases res) auto
      with sh(1) show "saveCount (events t') = saveCount (events t)"
        by (simp add: counts_pollPairs)
    qed
    have g: "\<forall>k. res = WaitDropped k \<or> res = WaitPanic k \<longrightarrow>
       k < 36 \<and>
       (\<exists>vbr. verifyBatch ext k anchorID digests = Inr vbr \<and>
          length (anchoredDigests [] vbr) = length digests \<and>
          (\<forall>d \<in> set (anchoredDigests [] vbr).
             \<exists>v \<in> set vbr. vd_Digest v = d \<and> vd_Result v = ResultOK \<and>
               ci_Transaction (vd_ChainInformation v) \<noteq> zeroTransaction \<and>
               ci_ChainTimestamp (vd_ChainInformation v) \<noteq> 0) \<and>
          (map vd_Digest vbr = digests \<longrightarrow> (\<forall>v \<in> set vbr. digestIsAnchored v)))"
    proof (intro allI impI)
      fix k assume "res = WaitDropped k \<or> res = WaitPanic k"
      with sh(4) have "goodAttempt ext digests k" by auto
      then show "k < 36 \<and>
       (\<exists>vbr. verifyBatch ext k anchorID digests = Inr vbr \<and>
          length (anchoredDigests [] vbr) = length digests \<and>
          (\<forall>d \<in> set (anchoredDigests [] vbr).
             \<exists>v \<in> set vbr. vd_Digest v = d \<and> vd_Result v = ResultOK \<and>
               ci_Transaction (vd_ChainInformation v) \<noteq> zeroTransaction \<and>
               ci_ChainTimestamp (vd_ChainInformation v) \<noteq> 0) \<and>
          (map vd_Digest vbr = digests \<longrightarrow> (\<forall>v \<in> set vbr. digestIsAnchored v)))"
        by (rule good)
    qed
    from c1 c2 p m m2 g s retry show ?thesis by blast
  qed
qed

theorem anchorWait_polling_witness:
  "anchorWait exampleServices [anchor1] [''52''] submittedTstore = (WaitDropped 1, droppedTstore) \<and>
   pollCount (events droppedTstore) = 2 \<and>
   minutesWaited (events droppedTstore) = 10 \<and>
   (\<exists>vbr. verifyBatch exampleServices 1 anchorID [''52''] = Inr vbr \<and>
          (\<forall>v \<in> set vbr. digestIsAnchored v))"
proof -
  note T = anchorWait_polling [OF run_anchorWait]
  have c: "pollCount (events submittedTstore) = 0" "minutesWaited (events submittedTstore) = 0"
    "pollCount (events droppedTstore) = 2"
    by (simp_all add: submittedTstore_def droppedTstore_def)
  have m: "minutesWaited (events droppedTstore)
      = minutesWaited (events submittedTstore)
        + 5 * (pollCount (events droppedTstore) - pollCount (events submittedTstore))"
    using T by blast
  have "\<exists>vbr. verifyBatch exampleServices 1 anchorID [''52''] = Inr vbr \<and>
          (map vd_Digest vbr = [''52''] \<longrightarrow> (\<forall>v \<in> set vbr. digestIsAnchored v))"
    using T by blast
  moreover have "verifyBatch exampleServices 1 anchorID [''52''] = Inr [anchoredReply]"
    by (simp add: exampleServices_def)
  moreover have "map vd_Digest [anchoredReply] = [''52'']"
    by (simp add: anchoredReply_def)
  ultimately have g: "\<exists>vbr. verifyBatch exampleServices 1 anchorID [''52''] = Inr vbr \<and>
          (\<forall>v \<in> set vbr. digestIsAnchored v)"
    by auto
  from m c have "minutesWaited (events droppedTstore) = 10" by simp
  with run_anchorWait c(3) g show ?thesis by blast
qed

subsection \<open>The dropping flag\<close>

lemma anchorTrees_events:
  "droppingAnchor (snd (snd (anchorTrees ext t))) = droppingAnchor t \<and>
   (\<exists>new. events (snd (snd (anchorTrees ext t))) = events t @ new \<and>
          (\<forall>ev \<in> set new. \<not> isGuardSet ev)) \<and>
   (\<forall>as ds. fst (snd (anchorTrees ext t)) = Some (as, ds) \<longrightarrow>
      events (snd (snd (anchorTrees ext t)))
        = events t @ [EvTimestampBatch anchorID ds, EvGoAnchorWait as ds])"
  by (auto simp: anchorTrees_def logEvent_def Let_def
      split: sum.splits option.splits prod.splits if_splits)

text \<open>
  C5, as stated, fails twice. \<open>anchorTrees\<close> submits the batch to dcrtime while the
  dropping flag is still unset: the flag is set by the goroutine \<open>anchorWait\<close>, which
  \<open>anchorTrees\<close> starts after the submission. And the flag is cleared whenever
  \<open>anchorWait\<close> returns: when the first poll of dcrtime fails, it is cleared after
  one poll, which is neither a success nor the timeout.
\<close>

theorem dropping_guard_counterexample:
  "anchorTrees exampleServices idleTstore = (None, Some ([anchor1], [''52'']), submittedTstore) \<and>
   events submittedTstore
     = [EvTimestampBatch ''tstorebe'' [''52''], EvGoAnchorWait [anchor1] [''52'']] \<and>
   \<not> droppingAnchor submittedTstore \<and>
   anchorWait failingServices [anchor1] [''52''] submittedTstore
     = (WaitVerifyBatchError (TstoreErrorf ''verifyBatch'' (TstoreError ''unreachable'')),
        failedTstore) \<and>
   pollCount (events failedTstore) = 1 \<and>
   \<not> droppingAnchor failedTstore"
proof -
  have "events submittedTstore
     = [EvTimestampBatch ''tstorebe'' [''52''], EvGoAnchorWait [anchor1] [''52'']]"
    "\<not> droppingAnchor submittedTstore" "pollCount (events failedTstore) = 1"
    "\<not> droppingAnchor failedTstore"
    by (simp_all add: submittedTstore_def failedTstore_def)
  with run_anchorTrees run_anchorWait_failing show ?thesis by blast
qed

text \<open>
  C5, amended: the dropping flag is set by \<open>anchorWait\<close> when it starts, that is
  after \<open>anchorTrees\<close> has submitted the batch and started the goroutine
  (\<open>anchorTrees\<close> itself never changes the flag), and it is cleared when
  \<open>anchorWait\<close> returns, whatever the reason; between the two, \<open>anchorWait\<close>
  neither changes the flag nor submits a batch. Whenever the flag is set,
  \<open>anchorTrees\<close> returns at once without submitting a batch or starting a goroutine,
  and a second \<open>anchorWait\<close> returns without polling: a scheduler tick that fires while
  \<open>anchorWait\<close> is waiting for the confirmation never submits a second batch.
\<close>

theorem dropping_guard:
  "(droppingAnchor t \<longrightarrow>
      anchorTrees ext t = (None, None, t) \<and>
      anchorWait ext anchors digests t = (WaitReentrant, t)) \<and>
   droppingAnchor (snd (snd (anchorTrees ext t))) = droppingAnchor t \<and>
   (\<exists>new. events (snd (snd (anchorTrees ext t))) = events t @ new \<and>
          (\<forall>ev \<in> set new. \<not> isGuardSet ev)) \<and>
   (\<forall>as ds. fst (snd (anchorTrees ext t)) = Some (as, ds) \<longrightarrow>
      events (snd (snd (anchorTrees ext t)))
        = events t @ [EvTimestampBatch anchorID ds, EvGoAnchorWait as ds]) \<and>
   (\<not> droppingAnchor t \<longrightarrow>
      \<not> droppingAnchor (snd (anchorWait ext anchors digests t)) \<and>
      (\<exists>mid. events (snd (anchorWait ext anchors digests t))
                = events t @ [EvDroppingAnchorSet True] @ mid @ [EvDroppingAnchorSet False] \<and>
             (\<forall>ev \<in> set mid. \<not> isGuardSet ev \<and> \<not> isSubmit ev)))"
proof -
  have skip: "droppingAnchor t \<longrightarrow>
      anchorTrees ext t = (None, None, t) \<and>
      anchorWait ext anchors digests t = (WaitReentrant, t)"
    by (simp add: anchorTrees_def anchorWait_def droppingAnchorGet_def)
  have wait: "\<not> droppingAnchor t \<longrightarrow>
      \<not> droppingAnchor (snd (anchorWait ext anchors digests t)) \<and>
      (\<exists>mid. events (snd (anchorWait ext anchors digests t))
                = events t @ [EvDroppingAnchorSet True] @ mid @ [EvDroppingAnchorSet False] \<and>
             (\<forall>ev \<in> set mid. \<not> isGuardSet ev \<and> \<not> isSubmit ev))"
  proof
    assume idle: "\<not> droppingAnchor t"
    obtain res t' where run: "anchorWait ext anchors digests t = (res, t')"
      by (cases "anchorWait ext anchors digests t")
    from anchorWait_shape [OF run idle]
    obtain n saves where sh: "\<not> droppingAnchor t'"
      "events t' = events t @ [EvDroppingAnchorSet True]
                    @ concat (replicate n (pollPair digests)) @ saves
                    @ [EvDroppingAnchorSet False]"
      "\<forall>ev \<in> set saves. isSave ev"
      by blast
    let ?mid = "concat (replicate n (pollPair digests)) @ saves"
    have "\<forall>ev \<in> set (concat (replicate n (pollPair digests))). \<not> isGuardSet ev \<and> \<not> isSubmit ev"
      by (auto simp: pollPair_def)
    with counts_saves(3) [OF sh(3)]
    have m: "\<forall>ev \<in> set ?mid. \<not> isGuardSet ev \<and> \<not> isSubmit ev" by auto
    have e: "events t' = events t @ [EvDroppingAnchorSet True] @ ?mid @ [EvDroppingAnchorSet False]"
      using sh(2) by simp
    have r: "snd (anchorWait ext anchors digests t) = t'" using run by simp
    show "\<not> droppingAnchor (snd (anchorWait ext anchors digests t)) \<and>
      (\<exists>mid. events (snd (anchorWait ext anchors digests t))
                = events t @ [EvDroppingAnchorSet True] @ mid @ [EvDroppingAnchorSet False] \<and>
             (\<forall>ev \<in> set mid. \<not> isGuardSet ev \<and> \<not> isSubmit ev))"
      unfolding r using sh(1) m e by blast
  qed
  from skip anchorTrees_events [of ext t] wait show ?thesis by blast
qed

theorem dropping_guard_witness:
  "droppingAnchor (droppingAnchorSet True submittedTstore) \<and>
   anchorTrees exampleServices (droppingAnchorSet True submittedTstore)
     = (None, None, droppingAnchorSet True submittedTstore) \<and>
   fst (snd (anchorTrees exampleServices idleTstore)) = Some ([anchor1], [''52'']) \<and>
   events (snd (snd (anchorTrees exampleServices idleTstore)))
     = events idleTstore @ [EvTimestampBatch anchorID [''52''], EvGoAnchorWait [anchor1] [''52'']] \<and>
   \<not> droppingAnchor submittedTstore \<and>
   \<not> droppingAnchor (snd (anchorWait exampleServices [anchor1] [''52''] submittedTstore))"
proof -
  have a: "droppingAnchor (droppingAnchorSet True submittedTstore)"
    by (simp add: droppingAnchorSet_def)
  have b: "\<not> droppingAnchor submittedTstore"
    by (simp add: submittedTstore_def)
  have c: "fst (snd (anchorTrees exampleServices idleTstore)) = Some ([anchor1], [''52''])"
    by (simp add: run_anchorTrees)
  from dropping_guard [of "droppingAnchorSet True submittedTstore" exampleServices "[anchor1]" "[''52'']"]
       dropping_guard [of idleTstore exampleServices "[anchor1]" "[''52'']"]
       dropping_guard [of submittedTstore exampleServices "[anchor1]" "[''52'']"] a b c
  show ?thesis by simp
qed

subsection \<open>Setting the billing status\<close>







end
